theory Spec2Isabelle
  imports Main
begin

section \<open>Data model\<close>

text \<open>
  The order filler (\<^verbatim>\<open>src/index.ts\<close>) keeps a local book of resting orders (the DLOB),
  a map of user handles, an event cursor and two kinds of busy flags. Public keys are
  modelled by the strings the source uses as map keys (\<^verbatim>\<open>publicKey.toString()\<close>),
  \<^verbatim>\<open>BN\<close> quantities by \<^typ>\<open>int\<close>, order and market identifiers by \<^typ>\<open>nat\<close>.
\<close>

datatype PositionDirection = Long | Short

datatype OrderType = Limit | TriggerMarket | TriggerLimit | Market

datatype OrderAction = Place | Cancel | Fill | Expire

record Order =
  orderId :: nat
  marketIndex :: nat
  direction :: PositionDirection
  orderType :: OrderType
  price :: int
  oraclePriceOffset :: int
  reduceOnly :: bool
  postOnly :: bool
  baseAssetAmount :: int
  baseAssetAmountFilled :: int

text \<open>
  A node of an order list. The \<^verbatim>\<open>next\<close> link of the source is the tail of the HOL list
  that holds the node; \<^verbatim>\<open>undefined\<close> is the empty list.
\<close>

record Node =
  order :: Order
  userAccount :: string
  userOrdersAccount :: string
  haveFilled :: bool

record OrderRecord =
  recordOrder :: Order
  recordUser :: string
  action :: OrderAction

text \<open>
  A user handle as the filler reads it: the addresses it resolves to and the values its
  getters return (\<^verbatim>\<open>getMarginRatio()\<close>, \<^verbatim>\<open>getFreeCollateral()\<close>,
  \<^verbatim>\<open>getUserAccount().collateral\<close>, \<^verbatim>\<open>getUserOrdersAccount()\<close>, which is undefined
  until the account has been loaded).
\<close>

record ClearingHouseUser =
  authority :: string
  userAccountPublicKey :: string
  userOrdersAccountPublicKey :: string
  marginRatio :: int
  freeCollateral :: int
  collateral :: int
  userOrders :: "Order list option"

record UserMapValue =
  user :: ClearingHouseUser
  upToDate :: bool

text \<open>The accounts enumerated at startup and the order history account.\<close>

record UserOrdersAccount =
  ordersUser :: string
  orders :: "Order list"

record ProgramUserOrdersAccount =
  ordersPublicKey :: string
  ordersAccount :: UserOrdersAccount

record ProgramUserAccount =
  accountPublicKey :: string
  accountAuthority :: string
  accountCollateral :: int

record OrderHistoryAccount =
  head :: nat
  orderRecords :: "OrderRecord list"

datatype BotError =
    AccountFetchFailed string
  | NoOracleSubscriber nat
  | RecordUndefined nat
  | SubscribeFailed

datatype LogLine =
    UserNotFoundAddingBeforeFilling string
  | UserNotFoundAdding string
  | OracleInvalid nat
  | TryingToFill string nat
  | FilledOrder string nat
  | ErrorFilling string nat
  | OrderNotFoundRemoving nat
  | UnexpectedErrorForMarket nat BotError
  | UnexpectedErrorInUpdateOrderList BotError
  | OrderPlaced nat
  | OrderCanceled nat
  | OrderExpired nat
  | OrderCompletelyFilled nat
  | OrderPartiallyFilled nat
  | DisablingTooMuchLeverage nat
  | DisablingReduceOnly nat
  | DisablingNoCollateral nat string
  | EnablingOrder nat

subsection \<open>The book\<close>

datatype PricingMode = Fixed | Floating

datatype Role = BidDesc | AskAsc | MarkDesc | MarkAsc

text \<open>
  Modelled from the spec: the state of the class \<^verbatim>\<open>DLOB\<close> (\<^verbatim>\<open>./dlob/DLOB\<close>, with
  \<^verbatim>\<open>./dlob/OrderList\<close>), which is not among the source files. The book maps a
  market to its eight order lists (two pricing modes, four roles) and keeps the set of
  tracked order identifiers. A disabled order stays tracked and keeps its place in its
  slot, and is left out of the list the scheduler sees.
\<close>

record DLOB =
  openOrders :: "nat set"
  disabledOrders :: "nat set"
  slots :: "nat \<times> PricingMode \<times> Role \<Rightarrow> Node list"

subsection \<open>Collaborators\<close>

text \<open>
  What the filler calls and does not define: the SDK's pure functions, the ledger, the
  oracle, and the parts of the book the spec leaves open. A call that can throw returns
  an option or an error.
  \<^item> \<open>pricesCross\<close> is \<^verbatim>\<open>Node.pricesCross\<close>;
  \<^item> \<open>listRole\<close> is the role list the book files an order under (the spec does not say
    how it is chosen);
  \<^item> \<open>fetchUserAccount\<close> is \<^verbatim>\<open>program.account.user.fetch\<close>, \<open>None\<close> when it throws
    (no account at that address);
  \<^item> \<open>getClearingHouseUser\<close> builds the handle of an authority
    (\<^verbatim>\<open>getClearingHouseUser(getPollingClearingHouseUserConfig(...))\<close>);
  \<^item> \<open>bulkPollingUserSubscribe\<close> says whether the bulk subscription succeeds;
  \<^item> \<open>orderHistoryAccount k\<close> is what \<^verbatim>\<open>getOrderHistoryAccount()\<close> returns after
    \<open>k\<close> events of the current drain were handled (the ledger keeps writing);
  \<^item> \<open>QUOTE_PRECISION\<close> is the SDK's constant of that name;
  \<^item> \<open>getOraclePriceData\<close> is the lookup of the market's oracle subscriber, \<open>None\<close>
    when no subscriber was registered for it (the call on \<^verbatim>\<open>undefined\<close> throws).
\<close>

record Env =
  pricesCross :: "Node \<Rightarrow> int \<Rightarrow> bool"
  listRole :: "Order \<Rightarrow> Role"
  fetchUserAccount :: "string \<Rightarrow> ProgramUserAccount option"
  getClearingHouseUser :: "string \<Rightarrow> ClearingHouseUser"
  bulkPollingUserSubscribe :: "ClearingHouseUser list \<Rightarrow> bool"
  orderHistoryAccount :: "nat \<Rightarrow> OrderHistoryAccount"
  QUOTE_PRECISION :: int
  getOraclePriceData :: "nat \<Rightarrow> int option"
  isOracleValid :: "nat \<Rightarrow> int \<Rightarrow> bool"
  calculateAskPrice :: "nat \<Rightarrow> int"
  calculateMarkPrice :: "nat \<Rightarrow> int"
  calculateBidPrice :: "nat \<Rightarrow> int"
  calculateOracleSpread :: "int \<Rightarrow> int \<Rightarrow> int"
  calculateBaseAssetAmountMarketCanExecute :: "nat \<Rightarrow> Order \<Rightarrow> int \<Rightarrow> int"
  calculateBaseAssetAmountUserCanExecute :: "nat \<Rightarrow> Order \<Rightarrow> ClearingHouseUser \<Rightarrow> int"
  minimumBaseAssetTradeSize :: "nat \<Rightarrow> int"
  isOrderRiskIncreasing :: "ClearingHouseUser \<Rightarrow> Order \<Rightarrow> bool"
  isOrderReduceOnly :: "ClearingHouseUser \<Rightarrow> Order \<Rightarrow> bool"
  getUserOrdersAccountPublicKey :: "string \<Rightarrow> string"

subsection \<open>The state of the bot\<close>

text \<open>
  The variables that \<^verbatim>\<open>runBot\<close> closes over, and the effects it has on its
  collaborators: \<open>processing\<close> lists the users for which \<^verbatim>\<open>processUser\<close> was started,
  \<open>fillOrders\<close> the calls of \<^verbatim>\<open>clearingHouse.fillOrder\<close>, \<open>fetchAccountsCalls\<close> the
  calls of \<^verbatim>\<open>user.fetchAccounts\<close>, \<open>console\<close> what the handlers and the passes
  logged. The timestamps kept for the telemetry alarms (\<^verbatim>\<open>lastUserUpdate\<close>,
  \<^verbatim>\<open>lastOrderUpdate\<close>) and the interval timers are left out. The array
  \<^verbatim>\<open>perMarketMutex\<close> is read at any index; an index never written reads as 0 here, and
  as 0 or \<^verbatim>\<open>undefined\<close> in the source, neither of which is 1.
\<close>

record Bot =
  dlob :: DLOB
  userMap :: "string \<rightharpoonup> UserMapValue"
  nextOrderHistoryIndex :: nat
  updateOrderListMutex :: nat
  perMarketMutex :: "nat \<Rightarrow> nat"
  processing :: "ClearingHouseUser list"
  fillOrders :: "(string \<times> string \<times> Order) list"
  fetchAccountsCalls :: "ClearingHouseUser list"
  console :: "LogLine list"

definition consoleLog :: "LogLine \<Rightarrow> Bot \<Rightarrow> Bot" where
  "consoleLog l s = s\<lparr>console := console s @ [l]\<rparr>"

section \<open>Candidate scanning\<close>

text \<open>\<^verbatim>\<open>fetchUserAndAddToUserMap\<close>: nothing is written when the fetch throws.\<close>

definition fetchUserAndAddToUserMap ::
  "Env \<Rightarrow> string \<Rightarrow> Bot \<Rightarrow> (BotError + UserMapValue) \<times> Bot" where
  "fetchUserAndAddToUserMap env key s =
     (case fetchUserAccount env key of
        None \<Rightarrow> (Inl (AccountFetchFailed key), s)
      | Some userAccount' \<Rightarrow>
          let u = getClearingHouseUser env (accountAuthority userAccount');
              mapValue = \<lparr>user = u, upToDate = True\<rparr>
          in (Inr mapValue,
              s\<lparr>processing := processing s @ [u],
                userMap := (userMap s)(key \<mapsto> mapValue)\<rparr>))"

text \<open>
  The post-only test of the scan, on the order the source reads it from.
\<close>

definition postOnlyWouldTake :: "Order \<Rightarrow> int \<Rightarrow> bool" where
  "postOnlyWouldTake odr markPrice =
     (postOnly odr \<and> oraclePriceOffset odr \<noteq> 0 \<and>
      ((direction odr = Long \<and> markPrice \<ge> price odr) \<or>
       (direction odr = Short \<and> markPrice \<le> price odr)))"

text \<open>
  The loop of \<^verbatim>\<open>findNodesToFill\<close>. \<open>node\<close> is the function's argument (the head it
  was called with), the list is \<^verbatim>\<open>currentNode\<close> with its \<^verbatim>\<open>next\<close> chain. As in the
  source, the order of the post-only test and the owner looked up in the user map are
  read from \<open>node\<close>, the in-flight flag from \<^verbatim>\<open>currentNode\<close>.
\<close>

fun findNodesToFillLoop ::
  "Env \<Rightarrow> Node \<Rightarrow> int \<Rightarrow> Node list \<Rightarrow> Node list \<Rightarrow> Bot \<Rightarrow> (BotError + Node list) \<times> Bot" where
  "findNodesToFillLoop env node markPrice [] nodesToFill s = (Inr nodesToFill, s)"
| "findNodesToFillLoop env node markPrice (currentNode # nxt) nodesToFill s =
     (if \<not> pricesCross env currentNode markPrice then (Inr nodesToFill, s)
      else if postOnlyWouldTake (order node) markPrice
      then findNodesToFillLoop env node markPrice nxt nodesToFill s
      else
        (case userMap s (userAccount node) of
           None \<Rightarrow>
             (case fetchUserAndAddToUserMap env (userAccount node)
                     (consoleLog (UserNotFoundAddingBeforeFilling (userAccount node)) s) of
                (Inl e, s') \<Rightarrow> (Inl e, s')
              | (Inr mapValue, s') \<Rightarrow>
                  findNodesToFillLoop env node markPrice nxt
                    (if \<not> haveFilled currentNode \<and> upToDate mapValue
                     then nodesToFill @ [currentNode] else nodesToFill) s')
         | Some mapValue \<Rightarrow>
             findNodesToFillLoop env node markPrice nxt
               (if \<not> haveFilled currentNode \<and> upToDate mapValue
                then nodesToFill @ [currentNode] else nodesToFill) s))"

text \<open>\<^verbatim>\<open>findNodesToFill(node, markPrice)\<close>, the node given with the chain behind it.\<close>

definition findNodesToFill ::
  "Env \<Rightarrow> Node \<Rightarrow> Node list \<Rightarrow> int \<Rightarrow> Bot \<Rightarrow> (BotError + Node list) \<times> Bot" where
  "findNodesToFill env node nxt markPrice s =
     findNodesToFillLoop env node markPrice (node # nxt) [] s"

definition findNodesToFillFromOrderList ::
  "Env \<Rightarrow> Node list \<Rightarrow> int \<Rightarrow> Bot \<Rightarrow> (BotError + Node list) \<times> Bot" where
  "findNodesToFillFromOrderList env orderList refPrice s =
     (case orderList of
        [] \<Rightarrow> (Inr [], s)
      | first # nxt \<Rightarrow>
          if pricesCross env first refPrice then findNodesToFill env first nxt refPrice s
          else (Inr [], s))"

section \<open>Operations of the book\<close>

text \<open>
  The methods of the book that \<^verbatim>\<open>index.ts\<close> calls are defined in \<^verbatim>\<open>./dlob/DLOB\<close>
  and \<^verbatim>\<open>./dlob/OrderList\<close>, which are not among the source files. Each of them is
  modelled from section 4.1 or 4.2 of the spec. A mutating operation returns, with the
  new book, whether it changed anything: the callback the caller passes is invoked once
  on a successful mutation and not otherwise.
\<close>

text \<open>
  Modelled from the spec: the pricing mode that \<^verbatim>\<open>DLOB.insert\<close> computes, "fixed vs
  floating, from whether the order carries a non-zero oracle offset".
\<close>

definition pricingMode :: "Order \<Rightarrow> PricingMode" where
  "pricingMode odr = (if oraclePriceOffset odr = 0 then Fixed else Floating)"

text \<open>
  Modelled from the spec: the ordering key of an \<^verbatim>\<open>OrderList\<close>, the price; a floating
  order is "priced as an offset from the external price oracle".
\<close>

definition sortPrice :: "Order \<Rightarrow> int" where
  "sortPrice odr = (case pricingMode odr of Fixed \<Rightarrow> price odr | Floating \<Rightarrow> oraclePriceOffset odr)"

text \<open>
  Modelled from the spec: the direction of the four role lists, "best-bid descending,
  best-ask ascending, and mark-crossing lists (ascending and descending)".
\<close>

fun isAscending :: "Role \<Rightarrow> bool" where
  "isAscending BidDesc = False"
| "isAscending AskAsc = True"
| "isAscending MarkDesc = False"
| "isAscending MarkAsc = True"

text \<open>
  Modelled from the spec: \<^verbatim>\<open>OrderList.insert\<close>, a sorted insertion by price in the
  direction of the list, behind the nodes of the same price that arrived earlier.
\<close>

fun orderListInsert :: "bool \<Rightarrow> Node \<Rightarrow> Node list \<Rightarrow> Node list" where
  "orderListInsert asc n [] = [n]"
| "orderListInsert asc n (m # ms) =
     (if (if asc then sortPrice (order n) < sortPrice (order m)
          else sortPrice (order m) < sortPrice (order n))
      then n # m # ms
      else m # orderListInsert asc n ms)"

text \<open>
  Modelled from the spec: the list of the book that holds an order, by its market, its
  pricing mode and its role (\<^verbatim>\<open>DLOB.insert\<close> "computes the correct pricing mode and
  role lists"). The role is the collaborator \<open>listRole\<close>.
\<close>

definition slotOf :: "Env \<Rightarrow> Order \<Rightarrow> nat \<times> PricingMode \<times> Role" where
  "slotOf env odr = (marketIndex odr, pricingMode odr, listRole env odr)"

text \<open>
  Modelled from the spec: \<^verbatim>\<open>DLOB.insert\<close>. It files a new node under the order's
  list and records the identifier in the tracked set; it "fails silently (idempotent) if
  the identifier is already tracked". Section 3 of the spec says of the order kinds that
  "market orders are excluded from book tracking": an order of kind market is not filed.
\<close>

definition dlobInsert :: "Env \<Rightarrow> Order \<Rightarrow> string \<Rightarrow> string \<Rightarrow> DLOB \<Rightarrow> bool \<times> DLOB" where
  "dlobInsert env odr ua uoa d =
     (if orderType odr = Market then (False, d)
      else if orderId odr \<in> openOrders d then (False, d)
      else (True,
            d\<lparr>openOrders := insert (orderId odr) (openOrders d),
              slots := (slots d)(slotOf env odr :=
                 orderListInsert (isAscending (listRole env odr))
                   \<lparr>order = odr, userAccount = ua, userOrdersAccount = uoa, haveFilled = False\<rparr>
                   (slots d (slotOf env odr)))\<rparr>))"

text \<open>
  Modelled from the spec: \<^verbatim>\<open>DLOB.remove\<close>. It "deletes from whichever list currently
  holds the identifier and drops it from the tracked set"; removing an absent identifier
  is a no-op.
\<close>

definition dlobRemove :: "Order \<Rightarrow> DLOB \<Rightarrow> bool \<times> DLOB" where
  "dlobRemove odr d =
     (orderId odr \<in> openOrders d,
      d\<lparr>openOrders := openOrders d - {orderId odr},
        disabledOrders := disabledOrders d - {orderId odr},
        slots := (\<lambda>k. filter (\<lambda>n. orderId (order n) \<noteq> orderId odr) (slots d k))\<rparr>)"

text \<open>
  Modelled from the spec: \<^verbatim>\<open>DLOB.update\<close>. It "mutates the filled-size field of the
  existing Node in place" and moves nothing.
\<close>

definition dlobUpdate :: "Order \<Rightarrow> DLOB \<Rightarrow> bool \<times> DLOB" where
  "dlobUpdate odr d =
     (if orderId odr \<in> openOrders d
      then (True,
            d\<lparr>slots := (\<lambda>k. map (\<lambda>n. if orderId (order n) = orderId odr
                 then n\<lparr>order := (order n)\<lparr>baseAssetAmountFilled := baseAssetAmountFilled odr\<rparr>\<rparr>
                 else n) (slots d k))\<rparr>)
      else (False, d))"

text \<open>
  Modelled from the spec: \<^verbatim>\<open>DLOB.disable\<close>. It moves a tracked, active order to
  "tracked but inactive" and keeps its place.
\<close>

definition dlobDisable :: "Order \<Rightarrow> DLOB \<Rightarrow> bool \<times> DLOB" where
  "dlobDisable odr d =
     (if orderId odr \<in> openOrders d \<and> orderId odr \<notin> disabledOrders d
      then (True, d\<lparr>disabledOrders := insert (orderId odr) (disabledOrders d)\<rparr>)
      else (False, d))"

text \<open>
  Modelled from the spec: \<^verbatim>\<open>DLOB.enable\<close>. It moves a tracked, inactive order back
  to "active in its lists"; it is idempotent on an order that is active.
\<close>

definition dlobEnable :: "Order \<Rightarrow> string \<Rightarrow> string \<Rightarrow> DLOB \<Rightarrow> bool \<times> DLOB" where
  "dlobEnable odr ua uoa d =
     (if orderId odr \<in> openOrders d \<and> orderId odr \<in> disabledOrders d
      then (True, d\<lparr>disabledOrders := disabledOrders d - {orderId odr}\<rparr>)
      else (False, d))"

text \<open>
  Modelled from the spec: one list of \<^verbatim>\<open>DLOB.getOrderLists\<close>, from its head on;
  "disabled orders are excluded from all lists until re-enabled".
\<close>

definition getOrderList :: "DLOB \<Rightarrow> nat \<Rightarrow> PricingMode \<Rightarrow> Role \<Rightarrow> Node list" where
  "getOrderList d m mode role =
     filter (\<lambda>n. orderId (order n) \<notin> disabledOrders d) (slots d (m, mode, role))"

text \<open>
  The assignment \<^verbatim>\<open>node.haveFilled = b\<close> of the source writes to the node object that
  the book's list holds; the node of an order is found by the order's identifier.
\<close>

definition setHaveFilled :: "Node \<Rightarrow> bool \<Rightarrow> DLOB \<Rightarrow> DLOB" where
  "setHaveFilled node b d =
     d\<lparr>slots := (\<lambda>k. map (\<lambda>n. if orderId (order n) = orderId (order node)
                                then n\<lparr>haveFilled := b\<rparr> else n) (slots d k))\<rparr>"

text \<open>
  \<^verbatim>\<open>printTopOfOrderLists\<close> for a market: it reads the market's oracle price through the
  subscriber map and throws when the market has no subscriber. What it prints is left out.
\<close>

definition printTopOfOrderLists :: "Env \<Rightarrow> nat \<Rightarrow> BotError option" where
  "printTopOfOrderLists env m =
     (case getOraclePriceData env m of None \<Rightarrow> Some (NoOracleSubscriber m) | Some _ \<Rightarrow> None)"

text \<open>A book call made with a callback that logs one line.\<close>

definition withCallback :: "LogLine \<Rightarrow> bool \<times> DLOB \<Rightarrow> Bot \<Rightarrow> Bot" where
  "withCallback l r s =
     (if fst r then consoleLog l (s\<lparr>dlob := snd r\<rparr>) else s\<lparr>dlob := snd r\<rparr>)"

section \<open>The initial load\<close>

text \<open>
  Lines 127 to 137 of \<^verbatim>\<open>runBot\<close>: every order of every user orders account is
  handed to \<^verbatim>\<open>dlob.insert\<close>, without a callback.
\<close>

definition loadUserOrders :: "Env \<Rightarrow> ProgramUserOrdersAccount list \<Rightarrow> DLOB \<Rightarrow> DLOB" where
  "loadUserOrders env programAccounts d =
     foldl (\<lambda>d programAccount.
        foldl (\<lambda>d odr. snd (dlobInsert env odr (ordersUser (ordersAccount programAccount))
                                (ordersPublicKey programAccount) d))
          d (orders (ordersAccount programAccount)))
       d programAccounts"

text \<open>
  \<^verbatim>\<open>fetchAllUsers\<close>: the first loop collects the handles to subscribe, the second one
  registers them and starts their margin-monitor cycles.
\<close>

fun collectUsers ::
  "Env \<Rightarrow> (string \<rightharpoonup> UserMapValue) \<Rightarrow> ProgramUserAccount list \<Rightarrow> ClearingHouseUser list
     \<Rightarrow> ClearingHouseUser list" where
  "collectUsers env um [] userArray = userArray"
| "collectUsers env um (programUserAccount # rest) userArray =
     (if accountCollateral programUserAccount < QUOTE_PRECISION env
      then collectUsers env um rest userArray
      else if um (accountPublicKey programUserAccount) \<noteq> None
      then collectUsers env um rest userArray
      else collectUsers env um rest
             (userArray @ [getClearingHouseUser env (accountAuthority programUserAccount)]))"

definition registerUser :: "Bot \<Rightarrow> ClearingHouseUser \<Rightarrow> Bot" where
  "registerUser s u =
     s\<lparr>userMap := (userMap s)(userAccountPublicKey u \<mapsto> \<lparr>user = u, upToDate = True\<rparr>),
       processing := processing s @ [u]\<rparr>"

definition fetchAllUsers :: "Env \<Rightarrow> ProgramUserAccount list \<Rightarrow> Bot \<Rightarrow> (BotError + unit) \<times> Bot" where
  "fetchAllUsers env programUserAccounts s =
     (let userArray = collectUsers env (userMap s) programUserAccounts []
      in if \<not> bulkPollingUserSubscribe env userArray then (Inl SubscribeFailed, s)
         else (Inr (), foldl registerUser s userArray))"

section \<open>The order event processor\<close>

text \<open>
  \<^verbatim>\<open>handleOrderRecord\<close>. The last statement prints the lists of the order's market and
  may throw, after the book has been changed.
\<close>

definition handleOrderRecord :: "Env \<Rightarrow> OrderRecord \<Rightarrow> Bot \<Rightarrow> (BotError + unit) \<times> Bot" where
  "handleOrderRecord env record s =
     (let odr = recordOrder record in
      if orderType odr = Market then (Inr (), s)
      else
        let s' =
          (case action record of
             Place \<Rightarrow>
               withCallback (OrderPlaced (orderId odr))
                 (dlobInsert env odr (recordUser record)
                    (getUserOrdersAccountPublicKey env (recordUser record)) (dlob s)) s
           | Cancel \<Rightarrow> withCallback (OrderCanceled (orderId odr)) (dlobRemove odr (dlob s)) s
           | Expire \<Rightarrow> withCallback (OrderExpired (orderId odr)) (dlobRemove odr (dlob s)) s
           | Fill \<Rightarrow>
               if baseAssetAmount odr = baseAssetAmountFilled odr
               then withCallback (OrderCompletelyFilled (orderId odr)) (dlobRemove odr (dlob s)) s
               else withCallback (OrderPartiallyFilled (orderId odr)) (dlobUpdate odr (dlob s)) s)
        in case printTopOfOrderLists env (marketIndex odr) of
             Some e \<Rightarrow> (Inl e, s')
           | None \<Rightarrow> (Inr (), s'))"

text \<open>
  The loop of \<^verbatim>\<open>updateOrderList\<close>. It runs as long as the ledger's head stays ahead of
  the cursor, so the model counts its iterations down from \<open>fuel\<close> and returns \<open>None\<close>
  when they are used up. \<open>k\<close> counts the events handled so far in this drain;
  \<open>applied\<close> is a history variable, the log indices whose records were handled without
  an error, in that order. Reading the array past its end gives \<^verbatim>\<open>undefined\<close> in the
  source, and \<^verbatim>\<open>handleOrderRecord\<close> throws on it. For an empty record array the source
  computes \<^verbatim>\<open>NaN\<close> as the next cursor; the array of the ledger has a fixed positive
  length, and the theorems below assume it.
\<close>

fun drainLoop ::
  "nat \<Rightarrow> Env \<Rightarrow> nat \<Rightarrow> nat \<Rightarrow> nat \<Rightarrow> nat list \<Rightarrow> Bot
     \<Rightarrow> ((BotError + unit) \<times> Bot \<times> nat list) option" where
  "drainLoop 0 env orderHistoryLength k hd' applied s = None"
| "drainLoop (Suc fuel) env orderHistoryLength k hd' applied s =
     (if nextOrderHistoryIndex s = hd' then Some (Inr (), s, applied)
      else if length (orderRecords (orderHistoryAccount env k)) \<le> nextOrderHistoryIndex s
      then Some (Inl (RecordUndefined (nextOrderHistoryIndex s)), s, applied)
      else
        (case handleOrderRecord env
                (orderRecords (orderHistoryAccount env k) ! nextOrderHistoryIndex s) s of
           (Inl e, s') \<Rightarrow> Some (Inl e, s', applied)
         | (Inr _, s') \<Rightarrow>
             drainLoop fuel env orderHistoryLength (Suc k)
               (head (orderHistoryAccount env (Suc k)))
               (applied @ [nextOrderHistoryIndex s])
               (s'\<lparr>nextOrderHistoryIndex :=
                     (nextOrderHistoryIndex s' + 1) mod orderHistoryLength\<rparr>)))"

text \<open>The cursor's successor in a log of \<open>len\<close> slots.\<close>

definition advance :: "nat \<Rightarrow> nat \<Rightarrow> nat" where
  "advance len c = (c + 1) mod len"

text \<open>
  \<^verbatim>\<open>updateOrderList\<close>: the guard, the \<^verbatim>\<open>try\<close> block with the loop, the \<^verbatim>\<open>catch\<close>
  block that logs, the \<^verbatim>\<open>finally\<close> block that clears the flag. The function returns
  no error: whatever the loop throws ends in the console.
\<close>

definition updateOrderList :: "nat \<Rightarrow> Env \<Rightarrow> Bot \<Rightarrow> (Bot \<times> nat list) option" where
  "updateOrderList fuel env s =
     (if updateOrderListMutex s = 1 then Some (s, [])
      else
        let s1 = s\<lparr>updateOrderListMutex := 1\<rparr>;
            hd' = head (orderHistoryAccount env 0);
            orderHistoryLength = length (orderRecords (orderHistoryAccount env 0))
        in case drainLoop fuel env orderHistoryLength 0 hd' [] s1 of
             None \<Rightarrow> None
           | Some (Inl e, s2, applied) \<Rightarrow>
               Some ((consoleLog (UnexpectedErrorInUpdateOrderList e) s2)
                       \<lparr>updateOrderListMutex := 0\<rparr>, applied)
           | Some (Inr _, s2, applied) \<Rightarrow> Some (s2\<lparr>updateOrderListMutex := 0\<rparr>, applied))"

section \<open>The margin monitor\<close>

text \<open>
  The branch that \<^verbatim>\<open>updateUserOrders\<close> takes for one order: the three conditions under
  which it disables the order, tried in the order of the source, and the last branch,
  which enables it.
\<close>

datatype OrderCheck =
    TooMuchLeverageAndRiskIncreasing
  | RiskIncreasingButReduceOnly
  | NoCollateral
  | EnableOrder

definition checkOrder :: "Env \<Rightarrow> ClearingHouseUser \<Rightarrow> bool \<Rightarrow> Order \<Rightarrow> OrderCheck" where
  "checkOrder env u tooMuchLeverage odr =
     (let orderIsRiskIncreasing = isOrderRiskIncreasing env u odr;
          orderIsReduceOnly = isOrderReduceOnly env u odr
      in if tooMuchLeverage \<and> orderIsRiskIncreasing then TooMuchLeverageAndRiskIncreasing
         else if \<not> orderIsReduceOnly \<and> reduceOnly odr then RiskIncreasingButReduceOnly
         else if collateral u = 0 then NoCollateral
         else EnableOrder)"

text \<open>
  The callbacks of \<^verbatim>\<open>updateUserOrders\<close> log a line and print the lists of the order's
  market, which may throw; the exception then leaves \<^verbatim>\<open>updateUserOrders\<close>.
\<close>

definition withPrintingCallback ::
  "Env \<Rightarrow> LogLine \<Rightarrow> Order \<Rightarrow> bool \<times> DLOB \<Rightarrow> Bot \<Rightarrow> (BotError + unit) \<times> Bot" where
  "withPrintingCallback env l odr r s =
     (if fst r
      then (case printTopOfOrderLists env (marketIndex odr) of
              Some e \<Rightarrow> (Inl e, consoleLog l (s\<lparr>dlob := snd r\<rparr>))
            | None \<Rightarrow> (Inr (), consoleLog l (s\<lparr>dlob := snd r\<rparr>)))
      else (Inr (), s\<lparr>dlob := snd r\<rparr>))"

definition updateUserOrder ::
  "Env \<Rightarrow> ClearingHouseUser \<Rightarrow> string \<Rightarrow> string \<Rightarrow> bool \<Rightarrow> Order \<Rightarrow> Bot
     \<Rightarrow> (BotError + unit) \<times> Bot" where
  "updateUserOrder env u ua uoa tooMuchLeverage odr s =
     (case checkOrder env u tooMuchLeverage odr of
        TooMuchLeverageAndRiskIncreasing \<Rightarrow>
          withPrintingCallback env (DisablingTooMuchLeverage (orderId odr)) odr
            (dlobDisable odr (dlob s)) s
      | RiskIncreasingButReduceOnly \<Rightarrow>
          withPrintingCallback env (DisablingReduceOnly (orderId odr)) odr
            (dlobDisable odr (dlob s)) s
      | NoCollateral \<Rightarrow>
          withPrintingCallback env (DisablingNoCollateral (orderId odr) (authority u)) odr
            (dlobDisable odr (dlob s)) s
      | EnableOrder \<Rightarrow>
          withPrintingCallback env (EnablingOrder (orderId odr)) odr
            (dlobEnable odr ua uoa (dlob s)) s)"

fun updateUserOrdersLoop ::
  "Env \<Rightarrow> ClearingHouseUser \<Rightarrow> string \<Rightarrow> string \<Rightarrow> bool \<Rightarrow> Order list \<Rightarrow> Bot
     \<Rightarrow> (BotError + unit) \<times> Bot" where
  "updateUserOrdersLoop env u ua uoa tooMuchLeverage [] s = (Inr (), s)"
| "updateUserOrdersLoop env u ua uoa tooMuchLeverage (odr # rest) s =
     (case updateUserOrder env u ua uoa tooMuchLeverage odr s of
        (Inl e, s') \<Rightarrow> (Inl e, s')
      | (Inr _, s') \<Rightarrow> updateUserOrdersLoop env u ua uoa tooMuchLeverage rest s')"

text \<open>\<^verbatim>\<open>updateUserOrders\<close> returns the margin ratio it read first.\<close>

definition updateUserOrders ::
  "Env \<Rightarrow> ClearingHouseUser \<Rightarrow> string \<Rightarrow> string \<Rightarrow> Bot \<Rightarrow> (BotError + int) \<times> Bot" where
  "updateUserOrders env u ua uoa s =
     (let tooMuchLeverage = (freeCollateral u = 0) in
      case userOrders u of
        None \<Rightarrow> (Inr (marginRatio u), s)
      | Some os \<Rightarrow>
          (case updateUserOrdersLoop env u ua uoa tooMuchLeverage os s of
             (Inl e, s') \<Rightarrow> (Inl e, s')
           | (Inr _, s') \<Rightarrow> (Inr (marginRatio u), s')))"

text \<open>
  One turn of the loop of \<^verbatim>\<open>processUser\<close>, up to the sleep: the interval is computed
  from the margin ratio in floating point and is not modelled.
\<close>

definition processUserCycle :: "Env \<Rightarrow> ClearingHouseUser \<Rightarrow> Bot \<Rightarrow> (BotError + int) \<times> Bot" where
  "processUserCycle env u s =
     updateUserOrders env u (userAccountPublicKey u) (userOrdersAccountPublicKey u) s"

text \<open>
  The handler of \<^verbatim>\<open>userPositionsData\<close> that \<^verbatim>\<open>processUser\<close> registers: the orders
  are checked again and the user's record is fresh from then on.
\<close>

definition onUserPositionsData :: "Env \<Rightarrow> ClearingHouseUser \<Rightarrow> Bot \<Rightarrow> (BotError + unit) \<times> Bot" where
  "onUserPositionsData env u s =
     (case updateUserOrders env u (userAccountPublicKey u) (userOrdersAccountPublicKey u) s of
        (Inl e, s') \<Rightarrow> (Inl e, s')
      | (Inr _, s') \<Rightarrow>
          (Inr (), s'\<lparr>userMap := (userMap s')(userAccountPublicKey u \<mapsto>
                          \<lparr>user = u, upToDate = True\<rparr>)\<rparr>))"

section \<open>The fill scheduler\<close>

text \<open>One \<^verbatim>\<open>nodesToFill.push(...(await findNodesToFillFromOrderList(list, price)))\<close>.\<close>

definition pushNodesToFill ::
  "Env \<Rightarrow> Node list \<Rightarrow> int \<Rightarrow> (BotError + Node list) \<times> Bot \<Rightarrow> (BotError + Node list) \<times> Bot" where
  "pushNodesToFill env orderList refPrice r =
     (case r of
        (Inl e, s) \<Rightarrow> (Inl e, s)
      | (Inr nodesToFill, s) \<Rightarrow>
          (case findNodesToFillFromOrderList env orderList refPrice s of
             (Inl e, s') \<Rightarrow> (Inl e, s')
           | (Inr found, s') \<Rightarrow> (Inr (nodesToFill @ found), s')))"

text \<open>
  What the scheduler does to a candidate it dispatches, in the order of the source: the
  owner's record becomes stale, the node is marked, the attempt is handed to
  \<^verbatim>\<open>clearingHouse.fillOrder\<close>.
\<close>

definition dispatchFill :: "ClearingHouseUser \<Rightarrow> Node \<Rightarrow> Bot \<Rightarrow> Bot" where
  "dispatchFill u nodeToFill s =
     (let s1 = s\<lparr>userMap := (userMap s)(userAccount nodeToFill \<mapsto> \<lparr>user = u, upToDate = False\<rparr>)\<rparr>;
          s2 = s1\<lparr>dlob := setHaveFilled nodeToFill True (dlob s1)\<rparr>;
          s3 = consoleLog (TryingToFill (userAccount nodeToFill) (orderId (order nodeToFill))) s2
      in s3\<lparr>fillOrders := fillOrders s3 @
              [(userAccount nodeToFill, userOrdersAccount nodeToFill, order nodeToFill)]\<rparr>)"

definition belowMinimumTradeSize :: "Env \<Rightarrow> nat \<Rightarrow> int \<Rightarrow> ClearingHouseUser \<Rightarrow> Node \<Rightarrow> bool" where
  "belowMinimumTradeSize env m oraclePriceData u nodeToFill =
     ((orderType (order nodeToFill) = Limit \<or> orderType (order nodeToFill) = TriggerLimit) \<and>
      (calculateBaseAssetAmountMarketCanExecute env m (order nodeToFill) oraclePriceData
         < minimumBaseAssetTradeSize env m \<or>
       calculateBaseAssetAmountUserCanExecute env m (order nodeToFill) u
         < minimumBaseAssetTradeSize env m))"

text \<open>
  The body of the loop over \<^verbatim>\<open>unfilledNodes\<close>, and the loop. A candidate whose owner
  is not in the user map has the owner fetched and is passed over (\<^verbatim>\<open>continue\<close>).
\<close>

definition dispatchNode :: "Env \<Rightarrow> nat \<Rightarrow> int \<Rightarrow> Node \<Rightarrow> Bot \<Rightarrow> (BotError + unit) \<times> Bot" where
  "dispatchNode env m oraclePriceData nodeToFill s =
     (case userMap s (userAccount nodeToFill) of
        None \<Rightarrow>
          (case fetchUserAndAddToUserMap env (userAccount nodeToFill)
                  (consoleLog (UserNotFoundAdding (userAccount nodeToFill)) s) of
             (Inl e, s') \<Rightarrow> (Inl e, s')
           | (Inr _, s') \<Rightarrow> (Inr (), s'))
      | Some mapValue \<Rightarrow>
          if belowMinimumTradeSize env m oraclePriceData (user mapValue) nodeToFill
          then (Inr (), s)
          else (Inr (), dispatchFill (user mapValue) nodeToFill s))"

fun dispatchLoop :: "Env \<Rightarrow> nat \<Rightarrow> int \<Rightarrow> Node list \<Rightarrow> Bot \<Rightarrow> (BotError + unit) \<times> Bot" where
  "dispatchLoop env m oraclePriceData [] s = (Inr (), s)"
| "dispatchLoop env m oraclePriceData (nodeToFill # rest) s =
     (case dispatchNode env m oraclePriceData nodeToFill s of
        (Inl e, s') \<Rightarrow> (Inl e, s')
      | (Inr _, s') \<Rightarrow> dispatchLoop env m oraclePriceData rest s')"

text \<open>
  The \<^verbatim>\<open>try\<close> block of \<^verbatim>\<open>tryFillForMarket\<close>: the four fixed lists, the oracle price
  (a throw when the market has no subscriber), the four floating lists when the oracle is
  valid, the filter on the in-flight flag and the dispatch loop.
\<close>

definition collectNodesToFill :: "Env \<Rightarrow> nat \<Rightarrow> Bot \<Rightarrow> (BotError + int \<times> Node list) \<times> Bot" where
  "collectNodesToFill env m s =
     (let askPrice = calculateAskPrice env m;
          markPrice = calculateMarkPrice env m;
          bidPrice = calculateBidPrice env m;
          d = dlob s;
          r4 = pushNodesToFill env (getOrderList d m Fixed MarkAsc) markPrice
                (pushNodesToFill env (getOrderList d m Fixed MarkDesc) markPrice
                  (pushNodesToFill env (getOrderList d m Fixed AskAsc) bidPrice
                    (pushNodesToFill env (getOrderList d m Fixed BidDesc) askPrice
                      (Inr [], s))))
      in case r4 of
           (Inl e, s') \<Rightarrow> (Inl e, s')
         | (Inr nodesToFill, s') \<Rightarrow>
             (case getOraclePriceData env m of
                None \<Rightarrow> (Inl (NoOracleSubscriber m), s')
              | Some oraclePriceData \<Rightarrow>
                  if isOracleValid env m oraclePriceData
                  then
                    (let askOracleSpread = calculateOracleSpread env askPrice oraclePriceData;
                         markOracleSpread = calculateOracleSpread env markPrice oraclePriceData;
                         bidOracleSpread = calculateOracleSpread env bidPrice oraclePriceData
                     in case pushNodesToFill env (getOrderList d m Floating MarkAsc) markOracleSpread
                              (pushNodesToFill env (getOrderList d m Floating MarkDesc) markOracleSpread
                                (pushNodesToFill env (getOrderList d m Floating AskAsc) bidOracleSpread
                                  (pushNodesToFill env (getOrderList d m Floating BidDesc) askOracleSpread
                                    (Inr nodesToFill, s')))) of
                          (Inl e, s'') \<Rightarrow> (Inl e, s'')
                        | (Inr nodesToFill', s'') \<Rightarrow> (Inr (oraclePriceData, nodesToFill'), s''))
                  else (Inr (oraclePriceData, nodesToFill), consoleLog (OracleInvalid m) s')))"

definition tryFillBody :: "Env \<Rightarrow> nat \<Rightarrow> Bot \<Rightarrow> (BotError + unit) \<times> Bot" where
  "tryFillBody env m s =
     (case collectNodesToFill env m s of
        (Inl e, s') \<Rightarrow> (Inl e, s')
      | (Inr (oraclePriceData, nodesToFill), s') \<Rightarrow>
          dispatchLoop env m oraclePriceData
            (filter (\<lambda>nodeToFill. \<not> haveFilled nodeToFill) nodesToFill) s')"

text \<open>
  \<^verbatim>\<open>tryFillForMarket\<close> in three parts: the guard that takes the market's flag, the
  \<^verbatim>\<open>catch\<close> block, and the \<^verbatim>\<open>finally\<close> block that gives the flag back.
\<close>

definition acquireMarket :: "nat \<Rightarrow> Bot \<Rightarrow> Bot option" where
  "acquireMarket m s =
     (if perMarketMutex s m = 1 then None
      else Some (s\<lparr>perMarketMutex := (perMarketMutex s)(m := 1)\<rparr>))"

definition releaseMarket :: "nat \<Rightarrow> (BotError + unit) \<times> Bot \<Rightarrow> Bot" where
  "releaseMarket m r =
     (case r of
        (Inl e, s) \<Rightarrow>
          (consoleLog (UnexpectedErrorForMarket m e) s)
            \<lparr>perMarketMutex := (perMarketMutex s)(m := 0)\<rparr>
      | (Inr _, s) \<Rightarrow> s\<lparr>perMarketMutex := (perMarketMutex s)(m := 0)\<rparr>)"

definition tryFillForMarket :: "Env \<Rightarrow> nat \<Rightarrow> Bot \<Rightarrow> Bot" where
  "tryFillForMarket env m s =
     (case acquireMarket m s of
        None \<Rightarrow> s
      | Some s1 \<Rightarrow> releaseMarket m (tryFillBody env m s1))"

text \<open>
  The rejection handler of a fill attempt (\<^verbatim>\<open>.catch\<close>). \<open>errorCode\<close> is what
  \<^verbatim>\<open>getErrorCode(error)\<close> returns, \<open>None\<close> when it finds no code; \<open>u\<close> is the handle the
  attempt was dispatched with. An exception of the final print is not handled by
  anything and changes nothing more.
\<close>

definition onFillError :: "ClearingHouseUser \<Rightarrow> Node \<Rightarrow> int option \<Rightarrow> Bot \<Rightarrow> Bot" where
  "onFillError u nodeToFill errorCode s =
     (let s1 = s\<lparr>dlob := setHaveFilled nodeToFill False (dlob s)\<rparr>;
          s2 = s1\<lparr>userMap := (userMap s1)(userAccount nodeToFill \<mapsto> \<lparr>user = u, upToDate = True\<rparr>)\<rparr>;
          s3 = consoleLog (ErrorFilling (userAccount nodeToFill) (orderId (order nodeToFill))) s2
      in if errorCode = Some 6043
         then
           (let s4 = s3\<lparr>fetchAccountsCalls := fetchAccountsCalls s3 @ [u]\<rparr>
            in withCallback (OrderNotFoundRemoving (orderId (order nodeToFill)))
                 (dlobRemove (order nodeToFill) (dlob s4)) s4)
         else s3)"

text \<open>The fulfilment handler (\<^verbatim>\<open>.then\<close>) only logs.\<close>

definition onFillSuccess :: "Node \<Rightarrow> Bot \<Rightarrow> Bot" where
  "onFillSuccess nodeToFill s =
     consoleLog (FilledOrder (userAccount nodeToFill) (orderId (order nodeToFill))) s"

section \<open>Interleaving of the scheduling passes\<close>

text \<open>
  \<^verbatim>\<open>tryFillForMarket\<close> is asynchronous: between the guard and the \<^verbatim>\<open>finally\<close> block
  of one call, other calls and other handlers run. The relation below lists the states a
  bot can reach, together with the number of passes that are inside their \<^verbatim>\<open>try\<close>
  block for each market (a history variable). A request runs the guard; a pass that is
  inside finishes with some outcome of its body; anything else the bot does leaves the
  flags alone.
\<close>

inductive reachable :: "Bot \<times> (nat \<Rightarrow> nat) \<Rightarrow> bool" where
  start: "perMarketMutex s = (\<lambda>_. 0) \<Longrightarrow> reachable (s, (\<lambda>_. 0))"
| skipped: "reachable (s, active) \<Longrightarrow> acquireMarket m s = None \<Longrightarrow> reachable (s, active)"
| entered: "reachable (s, active) \<Longrightarrow> acquireMarket m s = Some s1
     \<Longrightarrow> reachable (s1, active(m := active m + 1))"
| finished: "reachable (s, active) \<Longrightarrow> 0 < active m
     \<Longrightarrow> reachable (releaseMarket m (r, s), active(m := active m - 1))"
| other: "reachable (s, active) \<Longrightarrow> perMarketMutex s' = perMarketMutex s
     \<Longrightarrow> reachable (s', active)"

section \<open>Example inputs\<close>

text \<open>
  A collaborator environment for the examples: a long order crosses a reference price that
  is not above its price, a short order one that is not below it; longs are filed as bids,
  shorts as asks; the ledger knows the account \<open>''carol''\<close>; market 0 has an oracle and
  market 1 has none; the event log has four slots and its head at 2.
\<close>

definition exampleOrder :: "nat \<Rightarrow> OrderType \<Rightarrow> bool \<Rightarrow> int \<Rightarrow> Order" where
  "exampleOrder i t po off =
     \<lparr>orderId = i, marketIndex = 0, direction = Long, orderType = t, price = 100,
      oraclePriceOffset = off, reduceOnly = False, postOnly = po,
      baseAssetAmount = 10, baseAssetAmountFilled = 0\<rparr>"

definition exampleNode :: "Order \<Rightarrow> string \<Rightarrow> Node" where
  "exampleNode odr owner =
     \<lparr>order = odr, userAccount = owner, userOrdersAccount = owner @ ''-orders'',
      haveFilled = False\<rparr>"

definition exampleUser :: "string \<Rightarrow> ClearingHouseUser" where
  "exampleUser a =
     \<lparr>authority = a, userAccountPublicKey = a, userOrdersAccountPublicKey = a @ ''-orders'',
      marginRatio = 2500, freeCollateral = 5, collateral = 7, userOrders = None\<rparr>"

definition exampleRecord :: "nat \<Rightarrow> OrderType \<Rightarrow> OrderRecord" where
  "exampleRecord i t =
     \<lparr>recordOrder = (exampleOrder i t False 0)\<lparr>marketIndex := (if i = 7 then 1 else 0)\<rparr>,
      recordUser = ''alice'', action = Place\<rparr>"

definition exampleEnv :: Env where
  "exampleEnv =
     \<lparr>pricesCross = (\<lambda>n p. if direction (order n) = Long then p \<le> sortPrice (order n)
                            else sortPrice (order n) \<le> p),
      listRole = (\<lambda>odr. if direction odr = Long then BidDesc else AskAsc),
      fetchUserAccount = (\<lambda>k. if k = ''carol''
         then Some \<lparr>accountPublicKey = k, accountAuthority = k, accountCollateral = 0\<rparr>
         else None),
      getClearingHouseUser = exampleUser,
      bulkPollingUserSubscribe = (\<lambda>_. True),
      orderHistoryAccount = (\<lambda>_. \<lparr>head = 2, orderRecords =
         [exampleRecord 5 Limit, exampleRecord 6 Market, exampleRecord 7 Limit,
          exampleRecord 8 Limit]\<rparr>),
      QUOTE_PRECISION = 1000000,
      getOraclePriceData = (\<lambda>m. if m = 0 then Some 0 else None),
      isOracleValid = (\<lambda>_ _. True),
      calculateAskPrice = (\<lambda>_. 100),
      calculateMarkPrice = (\<lambda>_. 100),
      calculateBidPrice = (\<lambda>_. 100),
      calculateOracleSpread = (\<lambda>p oracle. p - oracle),
      calculateBaseAssetAmountMarketCanExecute = (\<lambda>_ _ _. 10),
      calculateBaseAssetAmountUserCanExecute = (\<lambda>_ _ _. 10),
      minimumBaseAssetTradeSize = (\<lambda>_. 1),
      isOrderRiskIncreasing = (\<lambda>_ _. False),
      isOrderReduceOnly = (\<lambda>_ _. False),
      getUserOrdersAccountPublicKey = (\<lambda>k. k @ ''-orders'')\<rparr>"

definition emptyDLOB :: DLOB where
  "emptyDLOB = \<lparr>openOrders = {}, disabledOrders = {}, slots = (\<lambda>_. [])\<rparr>"

definition exampleBot :: "DLOB \<Rightarrow> (string \<rightharpoonup> UserMapValue) \<Rightarrow> Bot" where
  "exampleBot d um =
     \<lparr>dlob = d, userMap = um, nextOrderHistoryIndex = 0, updateOrderListMutex = 0,
      perMarketMutex = (\<lambda>_. 0), processing = [], fillOrders = [], fetchAccountsCalls = [],
      console = []\<rparr>"

text \<open>A bot with one attempt in flight: order 1 of alice is marked and her record is stale.\<close>

definition inFlightNode :: Node where
  "inFlightNode = (exampleNode (exampleOrder 1 Limit False 0) ''alice'')\<lparr>haveFilled := True\<rparr>"

definition inFlightBot :: Bot where
  "inFlightBot =
     exampleBot
       (emptyDLOB\<lparr>openOrders := {1}, slots := (\<lambda>_. [])((0, Fixed, BidDesc) := [inFlightNode])\<rparr>)
       [''alice'' \<mapsto> \<lparr>user = exampleUser ''alice'', upToDate = False\<rparr>]"

text \<open>
  A bot whose fixed bid list of market 0 holds an order of alice, whose record is fresh,
  in front of an order of bob, whose record is stale.
\<close>

definition staleOwnerBot :: Bot where
  "staleOwnerBot =
     exampleBot
       (emptyDLOB\<lparr>openOrders := {1, 2},
          slots := (\<lambda>_. [])((0, Fixed, BidDesc) :=
            [exampleNode (exampleOrder 1 Limit False 0) ''alice'',
             exampleNode (exampleOrder 2 Limit False 0) ''bob''])\<rparr>)
       [''alice'' \<mapsto> \<lparr>user = exampleUser ''alice'', upToDate = True\<rparr>,
        ''bob'' \<mapsto> \<lparr>user = exampleUser ''bob'', upToDate = False\<rparr>]"

text \<open>
  A book that tracks the orders 1 and 2, a user whose order 1 carries the reduce-only
  flag, and a user whose flagged order 1 is on market 1, which has no oracle subscriber.
\<close>

definition monitoredBot :: Bot where
  "monitoredBot = exampleBot (emptyDLOB\<lparr>openOrders := {1, 2}\<rparr>) Map.empty"

definition monitoredUser :: ClearingHouseUser where
  "monitoredUser = (exampleUser ''alice'')\<lparr>userOrders :=
     Some [(exampleOrder 1 Limit False 0)\<lparr>reduceOnly := True\<rparr>, exampleOrder 2 Limit False 0]\<rparr>"

definition interruptedUser :: ClearingHouseUser where
  "interruptedUser = (exampleUser ''alice'')\<lparr>userOrders :=
     Some [(exampleOrder 1 Limit False 0)\<lparr>marketIndex := 1, reduceOnly := True\<rparr>,
           (exampleOrder 2 Limit False 0)\<lparr>reduceOnly := True\<rparr>]\<rparr>"

text \<open>
  A bot whose fixed bid list of market 0 holds an order of alice, who is registered, in
  front of an order of carol, who is not.
\<close>

definition unknownOwnerBot :: Bot where
  "unknownOwnerBot =
     exampleBot
       (emptyDLOB\<lparr>openOrders := {1, 2},
          slots := (\<lambda>_. [])((0, Fixed, BidDesc) :=
            [exampleNode (exampleOrder 1 Limit False 0) ''alice'',
             exampleNode (exampleOrder 2 Limit False 0) ''carol''])\<rparr>)
       [''alice'' \<mapsto> \<lparr>user = exampleUser ''alice'', upToDate = True\<rparr>]"

text \<open>A user orders account that holds a market order and a limit order.\<close>

definition marketOrderAccounts :: "ProgramUserOrdersAccount list" where
  "marketOrderAccounts =
     [\<lparr>ordersPublicKey = ''alice-orders'',
       ordersAccount = \<lparr>ordersUser = ''alice'',
         orders = [exampleOrder 7 Market False 0, exampleOrder 8 Limit False 0]\<rparr>\<rparr>]"

text \<open>Two user accounts, the first with less than one unit of quote precision.\<close>

definition exampleAccounts :: "ProgramUserAccount list" where
  "exampleAccounts =
     [\<lparr>accountPublicKey = ''carol'', accountAuthority = ''carol'', accountCollateral = 999999\<rparr>,
      \<lparr>accountPublicKey = ''bob'', accountAuthority = ''bob'', accountCollateral = 1000000\<rparr>]"

text \<open>
  Two drains in a row: the first with the head at 2, the second with the head at 3, where
  the event in slot 2 is for market 1, which has no oracle subscriber.
\<close>

definition failingEnv :: Env where
  "failingEnv = exampleEnv\<lparr>orderHistoryAccount := (\<lambda>_. \<lparr>head = 3, orderRecords =
         [exampleRecord 5 Limit, exampleRecord 6 Market, exampleRecord 7 Limit,
          exampleRecord 8 Limit]\<rparr>)\<rparr>"

definition firstDrain :: "(Bot \<times> nat list) option" where
  "firstDrain = updateOrderList (Suc (Suc (Suc 0))) exampleEnv (exampleBot emptyDLOB Map.empty)"

definition secondDrain :: "(Bot \<times> nat list) option" where
  "secondDrain = updateOrderList (Suc (Suc (Suc 0))) failingEnv (fst (the firstDrain))"

text \<open>A bot in which a pass for market 0 has taken the flag.\<close>

definition busyBot :: Bot where
  "busyBot = (exampleBot emptyDLOB Map.empty)\<lparr>perMarketMutex := (\<lambda>_. 0)(0 := 1)\<rparr>"

section \<open>Facts about the examples\<close>

lemmas example_defs =
  exampleEnv_def exampleOrder_def exampleNode_def exampleUser_def exampleBot_def
  exampleRecord_def emptyDLOB_def sortPrice_def pricingMode_def

section \<open>Candidate scanning: which order the post-only test reads\<close>

text \<open>
  When the test holds for the head, the scan selects nothing, whatever the orders of the
  other nodes are.
\<close>

lemma findNodesToFillLoop_head_test:
  "postOnlyWouldTake (order node) p \<Longrightarrow> findNodesToFillLoop env node p cur acc s = (Inr acc, s)"
  by (induction cur) auto

text \<open>
  Claim C1: during candidate scanning, every node of the scanned list whose own order is
  post-only with a non-zero oracle-price offset is left out of the candidates when the
  reference price would make it the aggressor (a long order when the reference price is at
  or above its price), the test being made on the current node's own order.

  The loop reads the order from \<^verbatim>\<open>node\<close>, the head it was called with, and not from
  \<^verbatim>\<open>currentNode\<close>. Below, the head (order 1) is not post-only and the second node
  (order 2) is a long post-only order with offset 100 and price 100; at the reference
  price 100 the test holds for order 2, and the scan returns it all the same.
\<close>

theorem findNodesToFill_tests_head_order:
  "fst (findNodesToFillFromOrderList exampleEnv
          [exampleNode (exampleOrder 1 Limit False 100) ''alice'',
           exampleNode (exampleOrder 2 Limit True 100) ''bob'']
          100
          (exampleBot emptyDLOB
             [''alice'' \<mapsto> \<lparr>user = exampleUser ''alice'', upToDate = True\<rparr>,
              ''bob'' \<mapsto> \<lparr>user = exampleUser ''bob'', upToDate = True\<rparr>]))
     = Inr [exampleNode (exampleOrder 1 Limit False 100) ''alice'',
            exampleNode (exampleOrder 2 Limit True 100) ''bob'']
   \<and> postOnlyWouldTake (exampleOrder 2 Limit True 100) 100"
  by (simp add: findNodesToFillFromOrderList_def findNodesToFill_def postOnlyWouldTake_def
      example_defs)

section \<open>The margin monitor: the second disable condition\<close>

lemma updateUserOrdersLoop_all_orders:
  "updateUserOrdersLoop env u ua uoa t os s = (Inr x, s')
     \<Longrightarrow> s' = foldl (\<lambda>s odr. snd (updateUserOrder env u ua uoa t odr s)) s os"
proof (induction os arbitrary: s)
  case Nil
  then show ?case by simp
next
  case (Cons odr os)
  then show ?case
    by (cases "updateUserOrder env u ua uoa t odr s") (auto split: sum.splits)
qed

lemma withPrintingCallback_dlob:
  "dlob (snd (withPrintingCallback env l odr r s)) = snd r"
  by (simp add: withPrintingCallback_def consoleLog_def split: option.splits)

lemma withPrintingCallback_console:
  "console (snd (withPrintingCallback env l odr r s)) = (if fst r then console s @ [l] else console s)"
  by (simp add: withPrintingCallback_def consoleLog_def split: option.splits)

lemma updateUserOrder_tracked:
  "openOrders (dlob (snd (updateUserOrder env u ua uoa tm odr t))) = openOrders (dlob t)"
  by (simp add: updateUserOrder_def withPrintingCallback_dlob dlobDisable_def dlobEnable_def
      split: OrderCheck.splits)

lemma updateUserOrder_other_order:
  assumes "orderId odr \<noteq> j"
  shows "(j \<in> disabledOrders (dlob (snd (updateUserOrder env u ua uoa tm odr t)))
            \<longleftrightarrow> j \<in> disabledOrders (dlob t))
    \<and> (DisablingReduceOnly j \<in> set (console (snd (updateUserOrder env u ua uoa tm odr t)))
            \<longleftrightarrow> DisablingReduceOnly j \<in> set (console t))"
  using assms
  by (auto simp: updateUserOrder_def withPrintingCallback_dlob withPrintingCallback_console
      dlobDisable_def dlobEnable_def split: OrderCheck.splits if_splits)

lemma updateUserOrder_mismatch:
  assumes "checkOrder env u tm odr = RiskIncreasingButReduceOnly"
    and "orderId odr \<in> openOrders (dlob t)"
  shows "orderId odr \<in> disabledOrders (dlob (snd (updateUserOrder env u ua uoa tm odr t)))
    \<and> (orderId odr \<notin> disabledOrders (dlob t) \<longrightarrow>
         DisablingReduceOnly (orderId odr)
           \<in> set (console (snd (updateUserOrder env u ua uoa tm odr t))))
    \<and> (DisablingReduceOnly (orderId odr) \<in> set (console t) \<longrightarrow>
         DisablingReduceOnly (orderId odr)
           \<in> set (console (snd (updateUserOrder env u ua uoa tm odr t))))"
  using assms
  by (auto simp: updateUserOrder_def withPrintingCallback_dlob withPrintingCallback_console
      dlobDisable_def)

lemma updateUserOrder_no_mismatch:
  assumes "checkOrder env u tm odr \<noteq> RiskIncreasingButReduceOnly"
  shows "DisablingReduceOnly j \<in> set (console (snd (updateUserOrder env u ua uoa tm odr t)))
            \<longleftrightarrow> DisablingReduceOnly j \<in> set (console t)"
  using assms
  by (auto simp: updateUserOrder_def withPrintingCallback_console split: OrderCheck.splits if_splits)

lemma cycle_disables_mismatch:
  assumes check: "checkOrder env u tm odr = RiskIncreasingButReduceOnly"
    and single: "\<forall>x \<in> set os. orderId x = orderId odr \<longrightarrow> x = odr"
    and tracked: "orderId odr \<in> openOrders (dlob t)"
  shows "(orderId odr \<in> disabledOrders (dlob t) \<or> odr \<in> set os \<longrightarrow>
            orderId odr \<in> disabledOrders
              (dlob (foldl (\<lambda>t x. snd (updateUserOrder env u ua uoa tm x t)) t os)))
    \<and> (DisablingReduceOnly (orderId odr) \<in> set (console t)
          \<or> (odr \<in> set os \<and> orderId odr \<notin> disabledOrders (dlob t)) \<longrightarrow>
            DisablingReduceOnly (orderId odr) \<in> set (console
              (foldl (\<lambda>t x. snd (updateUserOrder env u ua uoa tm x t)) t os)))"
  using single tracked
proof (induction os arbitrary: t)
  case Nil
  then show ?case by simp
next
  case (Cons x os)
  let ?t1 = "snd (updateUserOrder env u ua uoa tm x t)"
  have tr1: "orderId odr \<in> openOrders (dlob ?t1)"
    using Cons.prems(2) by (simp add: updateUserOrder_tracked)
  have sg: "\<forall>x \<in> set os. orderId x = orderId odr \<longrightarrow> x = odr"
    using Cons.prems(1) by simp
  note IH = Cons.IH[OF sg tr1]
  show ?case
  proof (cases "x = odr")
    case True
    from updateUserOrder_mismatch[OF check Cons.prems(2), of ua uoa] True
    have "orderId odr \<in> disabledOrders (dlob ?t1)"
      and "orderId odr \<notin> disabledOrders (dlob t) \<longrightarrow>
             DisablingReduceOnly (orderId odr) \<in> set (console ?t1)"
      and "DisablingReduceOnly (orderId odr) \<in> set (console t) \<longrightarrow>
             DisablingReduceOnly (orderId odr) \<in> set (console ?t1)"
      by simp_all
    with IH show ?thesis by auto
  next
    case False
    with Cons.prems(1) have "orderId x \<noteq> orderId odr" by auto
    from updateUserOrder_other_order[OF this, of env u ua uoa tm t] False IH
    show ?thesis by auto
  qed
qed

lemma cycle_logs_mismatch_only:
  assumes check: "checkOrder env u tm odr \<noteq> RiskIncreasingButReduceOnly"
    and single: "\<forall>x \<in> set os. orderId x = orderId odr \<longrightarrow> x = odr"
  shows "DisablingReduceOnly (orderId odr) \<in> set (console
              (foldl (\<lambda>t x. snd (updateUserOrder env u ua uoa tm x t)) t os))
           \<longleftrightarrow> DisablingReduceOnly (orderId odr) \<in> set (console t)"
  using single
proof (induction os arbitrary: t)
  case Nil
  then show ?case by simp
next
  case (Cons x os)
  let ?t1 = "snd (updateUserOrder env u ua uoa tm x t)"
  have sg: "\<forall>x \<in> set os. orderId x = orderId odr \<longrightarrow> x = odr"
    using Cons.prems by simp
  have "DisablingReduceOnly (orderId odr) \<in> set (console ?t1)
          \<longleftrightarrow> DisablingReduceOnly (orderId odr) \<in> set (console t)"
  proof (cases "orderId x = orderId odr")
    case True
    with Cons.prems have "x = odr" by simp
    with check show ?thesis by (simp add: updateUserOrder_no_mismatch)
  next
    case False
    from updateUserOrder_other_order[OF this] show ?thesis by blast
  qed
  with Cons.IH[OF sg, of ?t1] show ?case by simp
qed

lemma processUserCycle_all_orders:
  assumes "userOrders u = Some os" and "processUserCycle env u s = (Inr r, s')"
  shows "r = marginRatio u"
    and "s' = foldl (\<lambda>t x. snd (updateUserOrder env u (userAccountPublicKey u)
                 (userOrdersAccountPublicKey u) (freeCollateral u = 0) x t)) s os"
proof -
  obtain a t where loop: "updateUserOrdersLoop env u (userAccountPublicKey u)
       (userOrdersAccountPublicKey u) (freeCollateral u = 0) os s = (a, t)"
    by (cases "updateUserOrdersLoop env u (userAccountPublicKey u)
       (userOrdersAccountPublicKey u) (freeCollateral u = 0) os s")
  with assms obtain x where a: "a = Inr x" and "t = s'" and "r = marginRatio u"
    by (cases a) (auto simp: processUserCycle_def updateUserOrders_def Let_def)
  then show "r = marginRatio u" by simp
  from updateUserOrdersLoop_all_orders[of env u _ _ _ os s x s'] loop a \<open>t = s'\<close>
  show "s' = foldl (\<lambda>t x. snd (updateUserOrder env u (userAccountPublicKey u)
                 (userOrdersAccountPublicKey u) (freeCollateral u = 0) x t)) s os"
    by simp
qed

text \<open>
  Claim C2, as the code has it: in every margin-monitor cycle that runs to its end, for
  every resting order of the user, the order is disabled under the flag/intent-mismatch
  condition exactly when the first condition fails (free collateral is not exhausted, or
  the order is not risk increasing), the policy evaluation says that the order would not
  reduce the position, and the order itself carries the reduce-only flag. The cycle
  handles every order of the user's orders account in turn; for an order that the book
  tracks and whose identifier no other order of the account has, the cycle leaves it
  disabled and logs the line of this branch when the condition holds, and logs no such
  line when it does not.
\<close>

theorem processUserCycle_reduceOnly_mismatch:
  assumes resting: "userOrders u = Some os"
    and completes: "processUserCycle env u s = (Inr r, s')"
    and member: "odr \<in> set os"
  shows "(checkOrder env u (freeCollateral u = 0) odr = RiskIncreasingButReduceOnly \<longleftrightarrow>
            \<not> (freeCollateral u = 0 \<and> isOrderRiskIncreasing env u odr) \<and>
            \<not> isOrderReduceOnly env u odr \<and> reduceOnly odr)
    \<and> s' = foldl (\<lambda>t x. snd (updateUserOrder env u (userAccountPublicKey u)
                 (userOrdersAccountPublicKey u) (freeCollateral u = 0) x t)) s os
    \<and> (orderId odr \<in> openOrders (dlob s)
         \<and> (\<forall>x \<in> set os. orderId x = orderId odr \<longrightarrow> x = odr) \<longrightarrow>
        (\<not> (freeCollateral u = 0 \<and> isOrderRiskIncreasing env u odr) \<and>
            \<not> isOrderReduceOnly env u odr \<and> reduceOnly odr \<longrightarrow>
           orderId odr \<in> disabledOrders (dlob s')
           \<and> (orderId odr \<notin> disabledOrders (dlob s) \<longrightarrow>
                 DisablingReduceOnly (orderId odr) \<in> set (console s')))
        \<and> (\<not> (\<not> (freeCollateral u = 0 \<and> isOrderRiskIncreasing env u odr) \<and>
               \<not> isOrderReduceOnly env u odr \<and> reduceOnly odr) \<longrightarrow>
           (DisablingReduceOnly (orderId odr) \<in> set (console s') \<longrightarrow>
              DisablingReduceOnly (orderId odr) \<in> set (console s))))"
proof -
  let ?cond = "\<not> (freeCollateral u = 0 \<and> isOrderRiskIncreasing env u odr) \<and>
            \<not> isOrderReduceOnly env u odr \<and> reduceOnly odr"
  have branch: "checkOrder env u (freeCollateral u = 0) odr = RiskIncreasingButReduceOnly \<longleftrightarrow> ?cond"
    by (simp add: checkOrder_def Let_def)
  note all = processUserCycle_all_orders(2)[OF resting completes]
  have effect: "orderId odr \<in> disabledOrders (dlob s')
           \<and> (orderId odr \<notin> disabledOrders (dlob s) \<longrightarrow>
                 DisablingReduceOnly (orderId odr) \<in> set (console s'))"
    if "?cond" "orderId odr \<in> openOrders (dlob s)"
       "\<forall>x \<in> set os. orderId x = orderId odr \<longrightarrow> x = odr"
  proof -
    from that(1) branch
    have c: "checkOrder env u (freeCollateral u = 0) odr = RiskIncreasingButReduceOnly" by simp
    from cycle_disables_mismatch[OF c that(3) that(2), of "userAccountPublicKey u"
        "userOrdersAccountPublicKey u"] member all
    show ?thesis by simp
  qed
  have silent: "DisablingReduceOnly (orderId odr) \<in> set (console s') \<longrightarrow>
              DisablingReduceOnly (orderId odr) \<in> set (console s)"
    if "\<not> ?cond" "\<forall>x \<in> set os. orderId x = orderId odr \<longrightarrow> x = odr"
  proof -
    from that(1) branch
    have c: "checkOrder env u (freeCollateral u = 0) odr \<noteq> RiskIncreasingButReduceOnly" by simp
    from cycle_logs_mismatch_only[OF c that(2), of "userAccountPublicKey u"
        "userOrdersAccountPublicKey u" s] all
    show ?thesis by simp
  qed
  from branch all effect silent show ?thesis by blast
qed

lemmas cycle_eval = processUserCycle_def updateUserOrders_def updateUserOrder_def checkOrder_def
  withPrintingCallback_def dlobDisable_def dlobEnable_def printTopOfOrderLists_def consoleLog_def
  monitoredBot_def monitoredUser_def interruptedUser_def example_defs

theorem processUserCycle_reduceOnly_mismatch_witness:
  "userOrders monitoredUser =
      Some [(exampleOrder 1 Limit False 0)\<lparr>reduceOnly := True\<rparr>, exampleOrder 2 Limit False 0]
   \<and> fst (processUserCycle exampleEnv monitoredUser monitoredBot) = Inr 2500
   \<and> 1 \<in> openOrders (dlob monitoredBot)
   \<and> 1 \<notin> disabledOrders (dlob monitoredBot)
   \<and> checkOrder exampleEnv monitoredUser (freeCollateral monitoredUser = 0)
        ((exampleOrder 1 Limit False 0)\<lparr>reduceOnly := True\<rparr>) = RiskIncreasingButReduceOnly
   \<and> 1 \<in> disabledOrders (dlob (snd (processUserCycle exampleEnv monitoredUser monitoredBot)))
   \<and> console (snd (processUserCycle exampleEnv monitoredUser monitoredBot))
        = [DisablingReduceOnly 1]
   \<and> 2 \<notin> disabledOrders (dlob (snd (processUserCycle exampleEnv monitoredUser monitoredBot)))"
proof -
  have resting: "userOrders monitoredUser =
      Some [(exampleOrder 1 Limit False 0)\<lparr>reduceOnly := True\<rparr>, exampleOrder 2 Limit False 0]"
    by (simp add: monitoredUser_def exampleUser_def)
  have completes: "processUserCycle exampleEnv monitoredUser monitoredBot
      = (Inr 2500, snd (processUserCycle exampleEnv monitoredUser monitoredBot))"
    by (simp add: cycle_eval)
  have member: "(exampleOrder 1 Limit False 0)\<lparr>reduceOnly := True\<rparr>
      \<in> set [(exampleOrder 1 Limit False 0)\<lparr>reduceOnly := True\<rparr>, exampleOrder 2 Limit False 0]"
    by simp
  note t = processUserCycle_reduceOnly_mismatch[OF resting completes member]
  have flagged: "\<not> (freeCollateral monitoredUser = 0
         \<and> isOrderRiskIncreasing exampleEnv monitoredUser ((exampleOrder 1 Limit False 0)\<lparr>reduceOnly := True\<rparr>))
      \<and> \<not> isOrderReduceOnly exampleEnv monitoredUser ((exampleOrder 1 Limit False 0)\<lparr>reduceOnly := True\<rparr>)
      \<and> reduceOnly ((exampleOrder 1 Limit False 0)\<lparr>reduceOnly := True\<rparr>)"
    by (simp add: monitoredUser_def example_defs)
  from t flagged
  have branch: "checkOrder exampleEnv monitoredUser (freeCollateral monitoredUser = 0)
        ((exampleOrder 1 Limit False 0)\<lparr>reduceOnly := True\<rparr>) = RiskIncreasingButReduceOnly"
    by blast
  have computed: "fst (processUserCycle exampleEnv monitoredUser monitoredBot) = Inr 2500
   \<and> 1 \<in> openOrders (dlob monitoredBot)
   \<and> 1 \<notin> disabledOrders (dlob monitoredBot)
   \<and> 1 \<in> disabledOrders (dlob (snd (processUserCycle exampleEnv monitoredUser monitoredBot)))
   \<and> console (snd (processUserCycle exampleEnv monitoredUser monitoredBot))
        = [DisablingReduceOnly 1]
   \<and> 2 \<notin> disabledOrders (dlob (snd (processUserCycle exampleEnv monitoredUser monitoredBot)))"
    by (simp add: cycle_eval)
  from resting branch computed show ?thesis by simp
qed

text \<open>
  The claim as worded fails twice. Its condition has the flag the wrong way round: order
  2 of the cycle above does not carry the reduce-only flag and would not reduce the
  position, and the cycle leaves it enabled. And a cycle does not reach every order: a
  callback prints the lists of the order's market and throws when the market has no
  oracle subscriber, so that in the cycle below, which stops at order 1 of market 1,
  order 2 stays enabled although it carries the flag and would not reduce the position.
\<close>

theorem processUserCycle_mismatch_counterexample:
  "\<not> (checkOrder exampleEnv monitoredUser (freeCollateral monitoredUser = 0)
          (exampleOrder 2 Limit False 0) = RiskIncreasingButReduceOnly \<longleftrightarrow>
        (\<not> isOrderReduceOnly exampleEnv monitoredUser (exampleOrder 2 Limit False 0) \<and>
         \<not> reduceOnly (exampleOrder 2 Limit False 0)))
   \<and> fst (processUserCycle exampleEnv monitoredUser monitoredBot) = Inr 2500
   \<and> 2 \<in> openOrders (dlob monitoredBot)
   \<and> 2 \<notin> disabledOrders (dlob (snd (processUserCycle exampleEnv monitoredUser monitoredBot)))
   \<and> fst (processUserCycle exampleEnv interruptedUser monitoredBot) = Inl (NoOracleSubscriber 1)
   \<and> \<not> isOrderReduceOnly exampleEnv interruptedUser ((exampleOrder 2 Limit False 0)\<lparr>reduceOnly := True\<rparr>)
   \<and> reduceOnly ((exampleOrder 2 Limit False 0)\<lparr>reduceOnly := True\<rparr>)
   \<and> 2 \<notin> disabledOrders (dlob (snd (processUserCycle exampleEnv interruptedUser monitoredBot)))
   \<and> console (snd (processUserCycle exampleEnv interruptedUser monitoredBot))
        = [DisablingReduceOnly 1]"
  by (simp add: cycle_eval)

section \<open>Market orders and the book\<close>

lemma handleOrderRecord_market:
  "orderType (recordOrder r) = Market \<Longrightarrow> handleOrderRecord env r s = (Inr (), s)"
  by (simp add: handleOrderRecord_def)

lemma set_orderListInsert: "set (orderListInsert asc n l) = insert n (set l)"
  by (induction l) auto

lemma dlobInsert_market: "orderType odr = Market \<Longrightarrow> dlobInsert env odr ua uoa d = (False, d)"
  by (simp add: dlobInsert_def)

lemma dlobInsert_no_market:
  assumes "\<forall>k. \<forall>n \<in> set (slots d k). orderType (order n) \<noteq> Market"
  shows "\<forall>k. \<forall>n \<in> set (slots (snd (dlobInsert env odr ua uoa d)) k). orderType (order n) \<noteq> Market"
proof (intro allI ballI)
  fix k n
  assume n: "n \<in> set (slots (snd (dlobInsert env odr ua uoa d)) k)"
  have old: "orderType (order x) \<noteq> Market" if "x \<in> set (slots d k)" for x
    using assms that by blast
  show "orderType (order n) \<noteq> Market"
  proof (cases "orderType odr = Market \<or> orderId odr \<in> openOrders d")
    case True
    then have "snd (dlobInsert env odr ua uoa d) = d" by (auto simp: dlobInsert_def)
    with n old show ?thesis by simp
  next
    case False
    with n have "n \<in> set (slots d k)
        \<or> n = \<lparr>order = odr, userAccount = ua, userOrdersAccount = uoa, haveFilled = False\<rparr>"
      by (auto simp: dlobInsert_def set_orderListInsert split: if_splits)
    with old False show ?thesis by auto
  qed
qed

lemma dlobInsert_tracked:
  "openOrders (snd (dlobInsert env odr ua uoa d))
     \<subseteq> openOrders d \<union> (if orderType odr = Market then {} else {orderId odr})"
  by (auto simp: dlobInsert_def)

lemma dlobRemove_no_market:
  assumes "\<forall>k. \<forall>n \<in> set (slots d k). orderType (order n) \<noteq> Market"
  shows "\<forall>k. \<forall>n \<in> set (slots (snd (dlobRemove odr d)) k). orderType (order n) \<noteq> Market"
  using assms by (auto simp: dlobRemove_def)

lemma dlobUpdate_no_market:
  assumes "\<forall>k. \<forall>n \<in> set (slots d k). orderType (order n) \<noteq> Market"
  shows "\<forall>k. \<forall>n \<in> set (slots (snd (dlobUpdate odr d)) k). orderType (order n) \<noteq> Market"
  using assms by (auto simp: dlobUpdate_def)

lemma withCallback_dlob: "dlob (withCallback l r s) = snd r"
  by (simp add: withCallback_def consoleLog_def)

lemma handleOrderRecord_no_market:
  assumes "\<forall>k. \<forall>n \<in> set (slots (dlob s) k). orderType (order n) \<noteq> Market"
  shows "\<forall>k. \<forall>n \<in> set (slots (dlob (snd (handleOrderRecord env r s))) k).
           orderType (order n) \<noteq> Market"
proof (cases "orderType (recordOrder r) = Market")
  case True
  with assms show ?thesis by (simp add: handleOrderRecord_def)
next
  case False
  have "dlob (snd (handleOrderRecord env r s)) =
     (case action r of
        Place \<Rightarrow> snd (dlobInsert env (recordOrder r) (recordUser r)
                      (getUserOrdersAccountPublicKey env (recordUser r)) (dlob s))
      | Cancel \<Rightarrow> snd (dlobRemove (recordOrder r) (dlob s))
      | Expire \<Rightarrow> snd (dlobRemove (recordOrder r) (dlob s))
      | Fill \<Rightarrow> if baseAssetAmount (recordOrder r) = baseAssetAmountFilled (recordOrder r)
                then snd (dlobRemove (recordOrder r) (dlob s))
                else snd (dlobUpdate (recordOrder r) (dlob s)))"
    using False
    by (simp add: handleOrderRecord_def Let_def withCallback_dlob
        split: OrderAction.splits option.splits)
  then show ?thesis
    using dlobInsert_no_market[OF assms] dlobRemove_no_market[OF assms]
      dlobUpdate_no_market[OF assms]
    by (simp split: OrderAction.splits if_splits)
qed

lemma handleOrderRecord_tracked:
  "openOrders (dlob (snd (handleOrderRecord env r s)))
     \<subseteq> openOrders (dlob s)
        \<union> (if orderType (recordOrder r) = Market then {} else {orderId (recordOrder r)})"
  by (auto simp: handleOrderRecord_def Let_def withCallback_dlob dlobInsert_def dlobRemove_def
      dlobUpdate_def split: OrderAction.splits option.splits if_splits)

lemma loadOrders_no_market:
  assumes "\<forall>k. \<forall>n \<in> set (slots d k). orderType (order n) \<noteq> Market"
  shows "\<forall>k. \<forall>n \<in> set (slots (foldl (\<lambda>d odr. snd (dlobInsert env odr ua uoa d)) d os) k).
           orderType (order n) \<noteq> Market"
  using assms
proof (induction os arbitrary: d)
  case Nil
  then show ?case by simp
next
  case (Cons odr os)
  from Cons.IH[OF dlobInsert_no_market[OF Cons.prems]] show ?case by simp
qed

lemma loadOrders_tracked:
  "openOrders (foldl (\<lambda>d odr. snd (dlobInsert env odr ua uoa d)) d os)
     \<subseteq> openOrders d \<union> {orderId odr | odr. odr \<in> set os \<and> orderType odr \<noteq> Market}"
proof (induction os arbitrary: d)
  case Nil
  then show ?case by simp
next
  case (Cons odr os)
  have "openOrders (foldl (\<lambda>d odr. snd (dlobInsert env odr ua uoa d))
            (snd (dlobInsert env odr ua uoa d)) os)
      \<subseteq> openOrders (snd (dlobInsert env odr ua uoa d))
          \<union> {orderId x | x. x \<in> set os \<and> orderType x \<noteq> Market}"
    by (rule Cons.IH)
  with dlobInsert_tracked[of env odr ua uoa d] show ?case
    by (auto split: if_splits)
qed

lemma loadUserOrders_no_market:
  assumes "\<forall>k. \<forall>n \<in> set (slots d k). orderType (order n) \<noteq> Market"
  shows "\<forall>k. \<forall>n \<in> set (slots (loadUserOrders env accounts d) k). orderType (order n) \<noteq> Market"
  using assms unfolding loadUserOrders_def
proof (induction accounts arbitrary: d)
  case Nil
  then show ?case by simp
next
  case (Cons pa accounts)
  from Cons.IH[OF loadOrders_no_market[OF Cons.prems]] show ?case by simp
qed

lemma loadUserOrders_tracked:
  "openOrders (loadUserOrders env accounts d)
     \<subseteq> openOrders d \<union> {orderId odr | odr pa. pa \<in> set accounts
            \<and> odr \<in> set (orders (ordersAccount pa)) \<and> orderType odr \<noteq> Market}"
  unfolding loadUserOrders_def
proof (induction accounts arbitrary: d)
  case Nil
  then show ?case by simp
next
  case (Cons pa accounts)
  let ?d1 = "foldl (\<lambda>d odr. snd (dlobInsert env odr (ordersUser (ordersAccount pa))
                                (ordersPublicKey pa) d)) d (orders (ordersAccount pa))"
  have "openOrders (foldl (\<lambda>d programAccount.
        foldl (\<lambda>d odr. snd (dlobInsert env odr (ordersUser (ordersAccount programAccount))
                                (ordersPublicKey programAccount) d))
          d (orders (ordersAccount programAccount))) ?d1 accounts)
     \<subseteq> openOrders ?d1 \<union> {orderId odr | odr pa. pa \<in> set accounts
            \<and> odr \<in> set (orders (ordersAccount pa)) \<and> orderType odr \<noteq> Market}"
    by (rule Cons.IH)
  moreover have "openOrders ?d1 \<subseteq> openOrders d
      \<union> {orderId odr | odr. odr \<in> set (orders (ordersAccount pa)) \<and> orderType odr \<noteq> Market}"
    by (rule loadOrders_tracked)
  ultimately show ?case by (simp add: subset_iff) blast
qed

lemma drainLoop_no_market:
  "drainLoop fuel env len k h applied s = Some (r, s', applied')
     \<Longrightarrow> \<forall>k. \<forall>n \<in> set (slots (dlob s) k). orderType (order n) \<noteq> Market
     \<Longrightarrow> \<forall>k. \<forall>n \<in> set (slots (dlob s') k). orderType (order n) \<noteq> Market"
proof (induction fuel arbitrary: k h applied s)
  case 0
  then show ?case by simp
next
  case (Suc fuel)
  let ?rec = "orderRecords (orderHistoryAccount env k) ! nextOrderHistoryIndex s"
  obtain r1 s1 where h1: "handleOrderRecord env ?rec s = (r1, s1)"
    by (cases "handleOrderRecord env ?rec s")
  have inv1: "\<forall>k. \<forall>n \<in> set (slots (dlob s1) k). orderType (order n) \<noteq> Market"
    using handleOrderRecord_no_market[OF Suc.prems(2), of env ?rec] h1 by simp
  show ?case
  proof (cases "nextOrderHistoryIndex s = h
      \<or> length (orderRecords (orderHistoryAccount env k)) \<le> nextOrderHistoryIndex s")
    case True
    with Suc.prems show ?thesis by (auto split: if_splits)
  next
    case False
    show ?thesis
    proof (cases r1)
      case (Inl e)
      with False h1 Suc.prems(1) have "s' = s1" by simp
      with inv1 show ?thesis by simp
    next
      case (Inr u)
      let ?s2 = "s1\<lparr>nextOrderHistoryIndex := (nextOrderHistoryIndex s1 + 1) mod len\<rparr>"
      from False h1 Inr Suc.prems(1)
      have "drainLoop fuel env len (Suc k) (head (orderHistoryAccount env (Suc k)))
              (applied @ [nextOrderHistoryIndex s]) ?s2 = Some (r, s', applied')"
        by simp
      moreover have "\<forall>k. \<forall>n \<in> set (slots (dlob ?s2) k). orderType (order n) \<noteq> Market"
        using inv1 by simp
      ultimately show ?thesis by (rule Suc.IH)
    qed
  qed
qed

lemma updateOrderList_no_market:
  assumes "updateOrderList fuel env s = Some (s', applied)"
    and "\<forall>k. \<forall>n \<in> set (slots (dlob s) k). orderType (order n) \<noteq> Market"
  shows "\<forall>k. \<forall>n \<in> set (slots (dlob s') k). orderType (order n) \<noteq> Market"
proof (cases "updateOrderListMutex s = 1")
  case True
  with assms show ?thesis by (simp add: updateOrderList_def)
next
  case False
  let ?s1 = "s\<lparr>updateOrderListMutex := 1\<rparr>"
  from False assms(1) obtain r s2 where
    loop: "drainLoop fuel env (length (orderRecords (orderHistoryAccount env 0))) 0
             (head (orderHistoryAccount env 0)) [] ?s1 = Some (r, s2, applied)"
    and fin: "dlob s' = dlob s2"
    by (auto simp: updateOrderList_def Let_def consoleLog_def split: option.splits sum.splits)
  have "\<forall>k. \<forall>n \<in> set (slots (dlob ?s1) k). orderType (order n) \<noteq> Market"
    using assms(2) by simp
  from drainLoop_no_market[OF loop this] fin show ?thesis by simp
qed

text \<open>
  Claim C3: an order whose kind is market never enters the book. An event for a market
  order leaves the bot as it is; no event, no drain of the event log and no initial load
  of the user orders accounts puts a node of kind market into a list of a book that held
  none; and the identifiers that an event or the initial load adds to the tracked set
  are those of orders that are not of kind market.
\<close>

theorem market_orders_stay_out_of_book:
  "(orderType (recordOrder r) = Market \<longrightarrow> handleOrderRecord env r s = (Inr (), s))
   \<and> ((\<forall>k. \<forall>n \<in> set (slots (dlob s) k). orderType (order n) \<noteq> Market) \<longrightarrow>
        (\<forall>k. \<forall>n \<in> set (slots (dlob (snd (handleOrderRecord env r s))) k).
            orderType (order n) \<noteq> Market)
        \<and> (\<forall>fuel s' applied. updateOrderList fuel env s = Some (s', applied) \<longrightarrow>
              (\<forall>k. \<forall>n \<in> set (slots (dlob s') k). orderType (order n) \<noteq> Market)))
   \<and> openOrders (dlob (snd (handleOrderRecord env r s)))
        \<subseteq> openOrders (dlob s)
           \<union> (if orderType (recordOrder r) = Market then {} else {orderId (recordOrder r)})
   \<and> ((\<forall>k. \<forall>n \<in> set (slots d k). orderType (order n) \<noteq> Market) \<longrightarrow>
        (\<forall>k. \<forall>n \<in> set (slots (loadUserOrders env accounts d) k). orderType (order n) \<noteq> Market))
   \<and> openOrders (loadUserOrders env accounts d)
        \<subseteq> openOrders d \<union> {orderId odr | odr pa. pa \<in> set accounts
              \<and> odr \<in> set (orders (ordersAccount pa)) \<and> orderType odr \<noteq> Market}"
  using handleOrderRecord_market[of r env s] handleOrderRecord_no_market[of s env r]
    updateOrderList_no_market[of _ env s] handleOrderRecord_tracked[of env r s]
    loadUserOrders_no_market[of d env accounts] loadUserOrders_tracked[of env accounts d]
  by blast

theorem market_orders_stay_out_of_book_witness:
  "orderType (recordOrder (exampleRecord 6 Market)) = Market
   \<and> handleOrderRecord exampleEnv (exampleRecord 6 Market) (exampleBot emptyDLOB Map.empty)
       = (Inr (), exampleBot emptyDLOB Map.empty)
   \<and> slots emptyDLOB (0, Fixed, BidDesc) = []
   \<and> openOrders (loadUserOrders exampleEnv marketOrderAccounts emptyDLOB) = {8}
   \<and> slots (loadUserOrders exampleEnv marketOrderAccounts emptyDLOB) (0, Fixed, BidDesc)
       = [exampleNode (exampleOrder 8 Limit False 0) ''alice'']"
proof -
  have kind: "orderType (recordOrder (exampleRecord 6 Market)) = Market"
    by (simp add: example_defs)
  have clean: "\<forall>k. \<forall>n \<in> set (slots emptyDLOB k). orderType (order n) \<noteq> Market"
    by (simp add: emptyDLOB_def)
  note t = market_orders_stay_out_of_book
    [of "exampleRecord 6 Market" exampleEnv "exampleBot emptyDLOB Map.empty" emptyDLOB
        marketOrderAccounts]
  from t kind have untouched:
    "handleOrderRecord exampleEnv (exampleRecord 6 Market) (exampleBot emptyDLOB Map.empty)
       = (Inr (), exampleBot emptyDLOB Map.empty)"
    by blast
  from t clean have "\<forall>k. \<forall>n \<in> set (slots (loadUserOrders exampleEnv marketOrderAccounts emptyDLOB) k).
      orderType (order n) \<noteq> Market"
    by blast
  have loaded: "openOrders (loadUserOrders exampleEnv marketOrderAccounts emptyDLOB) = {8}
     \<and> slots (loadUserOrders exampleEnv marketOrderAccounts emptyDLOB) (0, Fixed, BidDesc)
       = [exampleNode (exampleOrder 8 Limit False 0) ''alice'']
     \<and> slots emptyDLOB (0, Fixed, BidDesc) = []"
    by (simp add: loadUserOrders_def dlobInsert_def slotOf_def marketOrderAccounts_def example_defs)
  from kind untouched loaded show ?thesis by simp
qed

section \<open>Fill attempts in flight\<close>

text \<open>
  A node that the scan adds is not marked in flight, and a dispatch makes the owner's
  record stale and marks the node before the attempt is handed over.
\<close>

lemma findNodesToFillLoop_not_in_flight:
  "findNodesToFillLoop env node p cur acc s = (Inr ns, s') \<Longrightarrow> n \<in> set ns
     \<Longrightarrow> n \<in> set acc \<or> (n \<in> set cur \<and> \<not> haveFilled n)"
proof (induction cur arbitrary: acc s)
  case Nil
  then show ?case by simp
next
  case (Cons c cur)
  show ?case
  proof (cases "pricesCross env c p \<and> \<not> postOnlyWouldTake (order node) p")
    case False
    with Cons show ?thesis by (auto split: if_splits)
  next
    case True
    show ?thesis
    proof (cases "userMap s (userAccount node)")
      case (Some mv)
      with True Cons.prems Cons.IH[of "if \<not> haveFilled c \<and> upToDate mv then acc @ [c] else acc" s]
      show ?thesis by (auto split: if_splits)
    next
      case None
      obtain r s1 where f: "fetchUserAndAddToUserMap env (userAccount node)
            (consoleLog (UserNotFoundAddingBeforeFilling (userAccount node)) s) = (r, s1)"
        by (cases "fetchUserAndAddToUserMap env (userAccount node)
            (consoleLog (UserNotFoundAddingBeforeFilling (userAccount node)) s)")
      show ?thesis
      proof (cases r)
        case (Inl e)
        with True None f Cons.prems show ?thesis by simp
      next
        case (Inr mv)
        with True None f Cons.prems
          Cons.IH[of "if \<not> haveFilled c \<and> upToDate mv then acc @ [c] else acc" s1]
        show ?thesis by (auto split: if_splits)
      qed
    qed
  qed
qed

lemma dispatchFill_marks:
  "userMap (dispatchFill u n s) (userAccount n) = Some \<lparr>user = u, upToDate = False\<rparr>
   \<and> (\<forall>k. \<forall>x \<in> set (slots (dlob (dispatchFill u n s)) k).
         orderId (order x) = orderId (order n) \<longrightarrow> haveFilled x)
   \<and> fillOrders (dispatchFill u n s) =
        fillOrders s @ [(userAccount n, userOrdersAccount n, order n)]"
  by (auto simp: dispatchFill_def Let_def consoleLog_def setHaveFilled_def)

text \<open>
  Claim C5: a node already marked filled-in-flight is never selected, a node owned by a
  user whose record is stale is never selected, and a dispatch marks the node and makes
  the owner's record stale first.

  The scan looks up the owner of \<^verbatim>\<open>node\<close>, the head it was called with, for every
  node of the list. Below, the head belongs to alice, whose record is fresh, and the
  second node to bob, whose record is stale: the pass dispatches a fill attempt for bob's
  order as well.
\<close>

theorem tryFillForMarket_fills_for_stale_owner:
  "map_option upToDate (userMap staleOwnerBot ''alice'') = Some True
   \<and> map_option upToDate (userMap staleOwnerBot ''bob'') = Some False
   \<and> fst (findNodesToFillFromOrderList exampleEnv
          (getOrderList (dlob staleOwnerBot) 0 Fixed BidDesc) 100 staleOwnerBot)
       = Inr [exampleNode (exampleOrder 1 Limit False 0) ''alice'',
              exampleNode (exampleOrder 2 Limit False 0) ''bob'']
   \<and> fillOrders (tryFillForMarket exampleEnv 0 staleOwnerBot)
       = [(''alice'', ''alice-orders'', exampleOrder 1 Limit False 0),
          (''bob'', ''bob-orders'', exampleOrder 2 Limit False 0)]"
  by (simp add: tryFillForMarket_def acquireMarket_def releaseMarket_def tryFillBody_def
      collectNodesToFill_def pushNodesToFill_def getOrderList_def dispatchNode_def dispatchFill_def
      belowMinimumTradeSize_def consoleLog_def setHaveFilled_def
      findNodesToFillFromOrderList_def findNodesToFill_def postOnlyWouldTake_def
      staleOwnerBot_def example_defs)

section \<open>A failed fill attempt\<close>

text \<open>
  Claim C7: when a fill attempt fails, the node's in-flight mark is cleared and the
  owner's record is fresh again; the user's accounts are refreshed and the order is
  removed from the book if the error code is 6043, and only then; no other failure has a
  further effect, and no attempt is dispatched again.
\<close>

theorem onFillError_effects:
  "(\<forall>k. \<forall>n \<in> set (slots (dlob (onFillError u nodeToFill errorCode s)) k).
        orderId (order n) = orderId (order nodeToFill) \<longrightarrow> \<not> haveFilled n)
   \<and> userMap (onFillError u nodeToFill errorCode s) (userAccount nodeToFill)
        = Some \<lparr>user = u, upToDate = True\<rparr>
   \<and> fillOrders (onFillError u nodeToFill errorCode s) = fillOrders s
   \<and> (errorCode = Some 6043 \<longrightarrow>
        fetchAccountsCalls (onFillError u nodeToFill errorCode s) = fetchAccountsCalls s @ [u]
        \<and> orderId (order nodeToFill) \<notin> openOrders (dlob (onFillError u nodeToFill errorCode s))
        \<and> (\<forall>k. \<forall>n \<in> set (slots (dlob (onFillError u nodeToFill errorCode s)) k).
              orderId (order n) \<noteq> orderId (order nodeToFill)))
   \<and> (errorCode \<noteq> Some 6043 \<longrightarrow>
        fetchAccountsCalls (onFillError u nodeToFill errorCode s) = fetchAccountsCalls s
        \<and> openOrders (dlob (onFillError u nodeToFill errorCode s)) = openOrders (dlob s)
        \<and> disabledOrders (dlob (onFillError u nodeToFill errorCode s)) = disabledOrders (dlob s)
        \<and> (\<forall>k. map order (slots (dlob (onFillError u nodeToFill errorCode s)) k)
                 = map order (slots (dlob s) k)))"
  by (auto simp: onFillError_def Let_def withCallback_def consoleLog_def dlobRemove_def
        setHaveFilled_def)

theorem onFillError_effects_witness:
  "Some (6043::int) = Some 6043
   \<and> 1 \<notin> openOrders (dlob (onFillError (exampleUser ''alice'') inFlightNode (Some 6043) inFlightBot))
   \<and> slots (dlob (onFillError (exampleUser ''alice'') inFlightNode (Some 6043) inFlightBot))
        (0, Fixed, BidDesc) = []
   \<and> fetchAccountsCalls (onFillError (exampleUser ''alice'') inFlightNode (Some 6043) inFlightBot)
        = [exampleUser ''alice'']
   \<and> Some (6000::int) \<noteq> Some 6043
   \<and> slots (dlob (onFillError (exampleUser ''alice'') inFlightNode (Some 6000) inFlightBot))
        (0, Fixed, BidDesc) = [exampleNode (exampleOrder 1 Limit False 0) ''alice'']
   \<and> 1 \<in> openOrders (dlob (onFillError (exampleUser ''alice'') inFlightNode (Some 6000) inFlightBot))
   \<and> fetchAccountsCalls (onFillError (exampleUser ''alice'') inFlightNode (Some 6000) inFlightBot) = []
   \<and> userMap (onFillError (exampleUser ''alice'') inFlightNode (Some 6000) inFlightBot) ''alice''
        = Some \<lparr>user = exampleUser ''alice'', upToDate = True\<rparr>"
proof -
  have refreshed:
    "fetchAccountsCalls (onFillError (exampleUser ''alice'') inFlightNode (Some 6043) inFlightBot)
       = fetchAccountsCalls inFlightBot @ [exampleUser ''alice'']"
    using onFillError_effects [of "exampleUser ''alice''" inFlightNode "Some 6043" inFlightBot]
    by blast
  have untouched:
    "fetchAccountsCalls (onFillError (exampleUser ''alice'') inFlightNode (Some 6000) inFlightBot)
       = fetchAccountsCalls inFlightBot"
    using onFillError_effects [of "exampleUser ''alice''" inFlightNode "Some 6000" inFlightBot]
    by simp
  have before: "fetchAccountsCalls inFlightBot = []"
    by (simp add: inFlightBot_def exampleBot_def)
  show ?thesis
    apply (simp only: refreshed untouched before)
    apply (simp add: onFillError_def setHaveFilled_def consoleLog_def withCallback_def
        dlobRemove_def inFlightBot_def inFlightNode_def example_defs)
    done
qed

section \<open>A candidate whose owner is unknown at dispatch\<close>

text \<open>The scan leaves the book and the attempts dispatched so far as they are.\<close>

lemma fetchUserAndAddToUserMap_book:
  "dlob (snd (fetchUserAndAddToUserMap env key s)) = dlob s
   \<and> fillOrders (snd (fetchUserAndAddToUserMap env key s)) = fillOrders s"
  by (simp add: fetchUserAndAddToUserMap_def Let_def split: option.splits)

lemma findNodesToFillLoop_book:
  "dlob (snd (findNodesToFillLoop env node p cur acc s)) = dlob s
   \<and> fillOrders (snd (findNodesToFillLoop env node p cur acc s)) = fillOrders s"
proof (induction cur arbitrary: acc s)
  case Nil
  then show ?case by simp
next
  case (Cons c cur)
  have fetched: "dlob (snd (fetchUserAndAddToUserMap env (userAccount node)
            (consoleLog (UserNotFoundAddingBeforeFilling (userAccount node)) s))) = dlob s
     \<and> fillOrders (snd (fetchUserAndAddToUserMap env (userAccount node)
            (consoleLog (UserNotFoundAddingBeforeFilling (userAccount node)) s))) = fillOrders s"
    by (simp add: fetchUserAndAddToUserMap_book consoleLog_def)
  show ?case
    using fetched
    by (cases "fetchUserAndAddToUserMap env (userAccount node)
            (consoleLog (UserNotFoundAddingBeforeFilling (userAccount node)) s)")
       (auto simp: Cons.IH split: option.splits sum.splits)
qed

lemma findNodesToFillFromOrderList_book:
  "dlob (snd (findNodesToFillFromOrderList env l p s)) = dlob s
   \<and> fillOrders (snd (findNodesToFillFromOrderList env l p s)) = fillOrders s"
  by (cases l)
     (simp_all add: findNodesToFillFromOrderList_def findNodesToFill_def findNodesToFillLoop_book
        del: findNodesToFillLoop.simps)

lemma pushNodesToFill_book:
  "dlob (snd (pushNodesToFill env l p r)) = dlob (snd r)
   \<and> fillOrders (snd (pushNodesToFill env l p r)) = fillOrders (snd r)"
proof (cases r)
  case (Pair a s)
  show ?thesis
  proof (cases a)
    case (Inl e)
    with Pair show ?thesis by (simp add: pushNodesToFill_def)
  next
    case (Inr ns)
    with Pair findNodesToFillFromOrderList_book[of env l p s] show ?thesis
      by (cases "findNodesToFillFromOrderList env l p s")
         (auto simp: pushNodesToFill_def split: sum.splits)
  qed
qed

lemma collectNodesToFill_book:
  "dlob (snd (collectNodesToFill env m s)) = dlob s
   \<and> fillOrders (snd (collectNodesToFill env m s)) = fillOrders s"
proof -
  let ?r4 = "pushNodesToFill env (getOrderList (dlob s) m Fixed MarkAsc) (calculateMarkPrice env m)
                (pushNodesToFill env (getOrderList (dlob s) m Fixed MarkDesc) (calculateMarkPrice env m)
                  (pushNodesToFill env (getOrderList (dlob s) m Fixed AskAsc) (calculateBidPrice env m)
                    (pushNodesToFill env (getOrderList (dlob s) m Fixed BidDesc) (calculateAskPrice env m)
                      (Inr [], s))))"
  have r4: "dlob (snd ?r4) = dlob s \<and> fillOrders (snd ?r4) = fillOrders s"
    by (simp add: pushNodesToFill_book)
  obtain a s4 where p: "?r4 = (a, s4)" by (cases ?r4)
  with r4 have s4: "dlob s4 = dlob s" "fillOrders s4 = fillOrders s" by simp_all
  show ?thesis
  proof (cases a)
    case (Inl e)
    with p s4 show ?thesis by (simp add: collectNodesToFill_def Let_def)
  next
    case (Inr ns)
    show ?thesis
    proof (cases "getOraclePriceData env m")
      case None
      with p s4 Inr show ?thesis by (simp add: collectNodesToFill_def Let_def)
    next
      case (Some opd)
      let ?r8 = "pushNodesToFill env (getOrderList (dlob s) m Floating MarkAsc)
                   (calculateOracleSpread env (calculateMarkPrice env m) opd)
                  (pushNodesToFill env (getOrderList (dlob s) m Floating MarkDesc)
                     (calculateOracleSpread env (calculateMarkPrice env m) opd)
                    (pushNodesToFill env (getOrderList (dlob s) m Floating AskAsc)
                       (calculateOracleSpread env (calculateBidPrice env m) opd)
                      (pushNodesToFill env (getOrderList (dlob s) m Floating BidDesc)
                         (calculateOracleSpread env (calculateAskPrice env m) opd)
                        (Inr ns, s4))))"
      have r8: "dlob (snd ?r8) = dlob s \<and> fillOrders (snd ?r8) = fillOrders s"
        by (simp add: pushNodesToFill_book s4)
      obtain b s8 where q: "?r8 = (b, s8)" by (cases ?r8)
      with r8 have s8: "dlob s8 = dlob s" "fillOrders s8 = fillOrders s" by simp_all
      from p Inr Some q s4 s8 show ?thesis
        by (cases b) (simp_all add: collectNodesToFill_def Let_def consoleLog_def)
    qed
  qed
qed

lemma releaseMarket_keeps:
  "dlob (releaseMarket m r) = dlob (snd r)"
  "fillOrders (releaseMarket m r) = fillOrders (snd r)"
  "userMap (releaseMarket m r) = userMap (snd r)"
  "processing (releaseMarket m r) = processing (snd r)"
  by (cases r; auto simp: releaseMarket_def consoleLog_def split: sum.splits)+

lemma filter_setHaveFilled:
  "orderId (order x) \<noteq> j \<Longrightarrow>
     filter (\<lambda>y. orderId (order y) = j)
       (map (\<lambda>y. if orderId (order y) = orderId (order x) then y\<lparr>haveFilled := b\<rparr> else y) l)
       = filter (\<lambda>y. orderId (order y) = j) l"
  by (induction l) auto

text \<open>What a step of the dispatch loop for one candidate leaves alone for another order.\<close>

lemma dispatchNode_other_order:
  assumes "orderId (order x) \<noteq> j"
  shows "(\<exists>new. fillOrders (snd (dispatchNode env m opd x s)) = fillOrders s @ new
            \<and> (\<forall>f \<in> set new. orderId (snd (snd f)) \<noteq> j))
    \<and> (\<forall>k. filter (\<lambda>y. orderId (order y) = j) (slots (dlob (snd (dispatchNode env m opd x s))) k)
            = filter (\<lambda>y. orderId (order y) = j) (slots (dlob s) k))"
proof (cases "userMap s (userAccount x)")
  case None
  have "dlob (snd (fetchUserAndAddToUserMap env (userAccount x)
            (consoleLog (UserNotFoundAdding (userAccount x)) s))) = dlob s
     \<and> fillOrders (snd (fetchUserAndAddToUserMap env (userAccount x)
            (consoleLog (UserNotFoundAdding (userAccount x)) s))) = fillOrders s"
    by (simp add: fetchUserAndAddToUserMap_book consoleLog_def)
  with None have "dlob (snd (dispatchNode env m opd x s)) = dlob s
     \<and> fillOrders (snd (dispatchNode env m opd x s)) = fillOrders s"
    by (cases "fetchUserAndAddToUserMap env (userAccount x)
            (consoleLog (UserNotFoundAdding (userAccount x)) s)")
       (auto simp: dispatchNode_def split: sum.splits)
  then show ?thesis by simp
next
  case (Some mv)
  show ?thesis
  proof (cases "belowMinimumTradeSize env m opd (user mv) x")
    case True
    with Some show ?thesis by (simp add: dispatchNode_def)
  next
    case False
    with Some have eq: "snd (dispatchNode env m opd x s) = dispatchFill (user mv) x s"
      by (simp add: dispatchNode_def)
    have "fillOrders (dispatchFill (user mv) x s)
        = fillOrders s @ [(userAccount x, userOrdersAccount x, order x)]"
      by (simp add: dispatchFill_def Let_def consoleLog_def)
    moreover have "\<forall>k. filter (\<lambda>y. orderId (order y) = j) (slots (dlob (dispatchFill (user mv) x s)) k)
            = filter (\<lambda>y. orderId (order y) = j) (slots (dlob s) k)"
      using assms
      by (simp add: dispatchFill_def Let_def consoleLog_def setHaveFilled_def filter_setHaveFilled)
    ultimately show ?thesis using assms by (simp add: eq)
  qed
qed

text \<open>A step of the dispatch loop keeps the handle of a user that is registered.\<close>

lemma dispatchNode_keeps_user:
  assumes "map_option user (userMap s key) = Some U"
  shows "map_option user (userMap (snd (dispatchNode env m opd x s)) key) = Some U"
    and "set (processing s) \<subseteq> set (processing (snd (dispatchNode env m opd x s)))"
proof -
  show "map_option user (userMap (snd (dispatchNode env m opd x s)) key) = Some U"
  proof (cases "userMap s (userAccount x)")
    case None
    with assms have "key \<noteq> userAccount x" by auto
    with None assms show ?thesis
      by (auto simp: dispatchNode_def fetchUserAndAddToUserMap_def consoleLog_def Let_def
          split: option.splits)
  next
    case (Some mv)
    with assms show ?thesis
      by (auto simp: dispatchNode_def dispatchFill_def consoleLog_def Let_def)
  qed
  show "set (processing s) \<subseteq> set (processing (snd (dispatchNode env m opd x s)))"
    by (auto simp: dispatchNode_def fetchUserAndAddToUserMap_def dispatchFill_def consoleLog_def
        Let_def split: option.splits)
qed

lemma dispatchLoop_other_orders:
  assumes "\<forall>x \<in> set xs. orderId (order x) \<noteq> j"
  shows "(\<exists>new. fillOrders (snd (dispatchLoop env m opd xs s)) = fillOrders s @ new
            \<and> (\<forall>f \<in> set new. orderId (snd (snd f)) \<noteq> j))
    \<and> (\<forall>k. filter (\<lambda>y. orderId (order y) = j) (slots (dlob (snd (dispatchLoop env m opd xs s))) k)
            = filter (\<lambda>y. orderId (order y) = j) (slots (dlob s) k))"
  using assms
proof (induction xs arbitrary: s)
  case Nil
  then show ?case by simp
next
  case (Cons x xs)
  obtain r s1 where d: "dispatchNode env m opd x s = (r, s1)"
    by (cases "dispatchNode env m opd x s")
  from Cons.prems have x: "orderId (order x) \<noteq> j" and xs: "\<forall>x \<in> set xs. orderId (order x) \<noteq> j"
    by simp_all
  from dispatchNode_other_order[OF x, of env m opd s] d obtain new1 where
    f1: "fillOrders s1 = fillOrders s @ new1" "\<forall>f \<in> set new1. orderId (snd (snd f)) \<noteq> j"
    and b1: "\<forall>k. filter (\<lambda>y. orderId (order y) = j) (slots (dlob s1) k)
            = filter (\<lambda>y. orderId (order y) = j) (slots (dlob s) k)"
    by auto
  show ?case
  proof (cases r)
    case (Inl e)
    with d f1 b1 show ?thesis by auto
  next
    case (Inr u)
    from Cons.IH[OF xs, of s1] obtain new2 where
      f2: "fillOrders (snd (dispatchLoop env m opd xs s1)) = fillOrders s1 @ new2"
        "\<forall>f \<in> set new2. orderId (snd (snd f)) \<noteq> j"
      and b2: "\<forall>k. filter (\<lambda>y. orderId (order y) = j)
                  (slots (dlob (snd (dispatchLoop env m opd xs s1))) k)
            = filter (\<lambda>y. orderId (order y) = j) (slots (dlob s1) k)"
      by auto
    have "fillOrders (snd (dispatchLoop env m opd xs s1)) = fillOrders s @ (new1 @ new2)
        \<and> (\<forall>f \<in> set (new1 @ new2). orderId (snd (snd f)) \<noteq> j)"
      using f1 f2 by auto
    then have "\<exists>new. fillOrders (snd (dispatchLoop env m opd xs s1)) = fillOrders s @ new
        \<and> (\<forall>f \<in> set new. orderId (snd (snd f)) \<noteq> j)"
      by blast
    with d Inr b1 b2 show ?thesis by simp
  qed
qed

lemma dispatchLoop_keeps_user:
  assumes "map_option user (userMap s key) = Some U"
  shows "map_option user (userMap (snd (dispatchLoop env m opd xs s)) key) = Some U
    \<and> set (processing s) \<subseteq> set (processing (snd (dispatchLoop env m opd xs s)))"
  using assms
proof (induction xs arbitrary: s)
  case Nil
  then show ?case by simp
next
  case (Cons x xs)
  obtain r s1 where d: "dispatchNode env m opd x s = (r, s1)"
    by (cases "dispatchNode env m opd x s")
  from dispatchNode_keeps_user[OF Cons.prems, of env m opd x] d
  have u1: "map_option user (userMap s1 key) = Some U"
    and p1: "set (processing s) \<subseteq> set (processing s1)"
    by simp_all
  show ?case
  proof (cases r)
    case (Inl e)
    with d u1 p1 show ?thesis by simp
  next
    case (Inr u)
    from Cons.IH[OF u1] p1 d Inr show ?thesis by auto
  qed
qed

lemma dispatchLoop_append:
  "dispatchLoop env m opd xs s = (Inr u, s1)
     \<Longrightarrow> dispatchLoop env m opd (xs @ ys) s = dispatchLoop env m opd ys s1"
proof (induction xs arbitrary: s)
  case Nil
  then show ?case by simp
next
  case (Cons x xs)
  then show ?case
    by (cases "dispatchNode env m opd x s") (auto split: sum.splits)
qed

lemma dispatchNode_unknown_owner_step:
  assumes "userMap s (userAccount n) = None"
    and "fetchUserAccount env (userAccount n) = Some a"
  shows "fst (dispatchNode env m opd n s) = Inr ()"
    and "fillOrders (snd (dispatchNode env m opd n s)) = fillOrders s"
    and "dlob (snd (dispatchNode env m opd n s)) = dlob s"
    and "userMap (snd (dispatchNode env m opd n s)) =
        (userMap s)(userAccount n \<mapsto>
           \<lparr>user = getClearingHouseUser env (accountAuthority a), upToDate = True\<rparr>)"
    and "processing (snd (dispatchNode env m opd n s)) =
        processing s @ [getClearingHouseUser env (accountAuthority a)]"
  using assms
  by (simp_all add: dispatchNode_def fetchUserAndAddToUserMap_def consoleLog_def Let_def)

text \<open>
  Claim C10: in the dispatch phase of a scheduling pass, a candidate whose owner is not
  in the user map when the loop reaches it makes the pass fetch and register the owner
  and pass the candidate over. At the end of the pass the owner is registered and
  monitored, no fill attempt of the pass is for the candidate's order, the nodes of that
  order are as they were (not marked), and the candidate is eligible again: the dispatch
  step, run on it after the pass, dispatches it unless it is below the minimum trade
  size. The candidate is the only one of the pass for its order.
\<close>

theorem tryFillForMarket_unknown_owner:
  assumes free: "perMarketMutex s m \<noteq> 1"
    and scan: "collectNodesToFill env m (s\<lparr>perMarketMutex := (perMarketMutex s)(m := 1)\<rparr>)
                 = (Inr (opd, nodesToFill), s1)"
    and candidates: "filter (\<lambda>x. \<not> haveFilled x) nodesToFill = before @ n # after"
    and reached: "dispatchLoop env m opd before s1 = (Inr (), s2)"
    and unknown: "userMap s2 (userAccount n) = None"
    and fetched: "fetchUserAccount env (userAccount n) = Some a"
    and once: "\<forall>x \<in> set (before @ after). orderId (order x) \<noteq> orderId (order n)"
  shows "map_option user (userMap (tryFillForMarket env m s) (userAccount n))
           = Some (getClearingHouseUser env (accountAuthority a))
    \<and> getClearingHouseUser env (accountAuthority a) \<in> set (processing (tryFillForMarket env m s))
    \<and> (\<exists>new. fillOrders (tryFillForMarket env m s) = fillOrders s @ new
           \<and> (\<forall>f \<in> set new. orderId (snd (snd f)) \<noteq> orderId (order n)))
    \<and> (\<forall>k. filter (\<lambda>y. orderId (order y) = orderId (order n))
                (slots (dlob (tryFillForMarket env m s)) k)
            = filter (\<lambda>y. orderId (order y) = orderId (order n)) (slots (dlob s) k))
    \<and> (\<not> belowMinimumTradeSize env m opd (getClearingHouseUser env (accountAuthority a)) n \<longrightarrow>
         fillOrders (snd (dispatchNode env m opd n (tryFillForMarket env m s)))
           = fillOrders (tryFillForMarket env m s)
               @ [(userAccount n, userOrdersAccount n, order n)])"
proof -
  let ?j = "orderId (order n)"
  let ?U = "getClearingHouseUser env (accountAuthority a)"
  let ?s0 = "s\<lparr>perMarketMutex := (perMarketMutex s)(m := 1)\<rparr>"
  let ?s3 = "snd (dispatchNode env m opd n s2)"
  let ?s4 = "snd (dispatchLoop env m opd after ?s3)"
  note step = dispatchNode_unknown_owner_step[OF unknown fetched, of m opd]
  have acquired: "acquireMarket m s = Some ?s0"
    using free by (simp add: acquireMarket_def)
  have "dispatchLoop env m opd (before @ n # after) s1 = dispatchLoop env m opd (n # after) s2"
    using reached by (rule dispatchLoop_append)
  also have "\<dots> = dispatchLoop env m opd after ?s3"
    using step(1) by (cases "dispatchNode env m opd n s2") auto
  finally have body: "snd (tryFillBody env m ?s0) = ?s4"
    using scan candidates by (simp add: tryFillBody_def)
  have final: "tryFillForMarket env m s = releaseMarket m (tryFillBody env m ?s0)"
    using acquired by (simp add: tryFillForMarket_def)
  have s1: "dlob s1 = dlob s" "fillOrders s1 = fillOrders s"
    using collectNodesToFill_book[of env m ?s0] scan by simp_all
  have pre: "\<forall>x \<in> set before. orderId (order x) \<noteq> ?j"
    and post: "\<forall>x \<in> set after. orderId (order x) \<noteq> ?j"
    using once by simp_all
  from dispatchLoop_other_orders[OF pre, of env m opd s1] reached obtain new1 where
    f2: "fillOrders s2 = fillOrders s1 @ new1" "\<forall>f \<in> set new1. orderId (snd (snd f)) \<noteq> ?j"
    and b2: "\<forall>k. filter (\<lambda>y. orderId (order y) = ?j) (slots (dlob s2) k)
            = filter (\<lambda>y. orderId (order y) = ?j) (slots (dlob s1) k)"
    by auto
  from dispatchLoop_other_orders[OF post, of env m opd ?s3] obtain new2 where
    f4: "fillOrders ?s4 = fillOrders ?s3 @ new2" "\<forall>f \<in> set new2. orderId (snd (snd f)) \<noteq> ?j"
    and b4: "\<forall>k. filter (\<lambda>y. orderId (order y) = ?j) (slots (dlob ?s4) k)
            = filter (\<lambda>y. orderId (order y) = ?j) (slots (dlob ?s3) k)"
    by auto
  have registered: "map_option user (userMap ?s3 (userAccount n)) = Some ?U"
    using step(4) by simp
  from dispatchLoop_keeps_user[OF registered, of env m opd after]
  have u4: "map_option user (userMap ?s4 (userAccount n)) = Some ?U"
    and p4: "set (processing ?s3) \<subseteq> set (processing ?s4)"
    by simp_all
  have monitored: "?U \<in> set (processing ?s4)"
    using p4 step(5) by auto
  have fills: "fillOrders ?s4 = fillOrders s @ (new1 @ new2)"
    using f4(1) step(2) f2(1) s1(2) by simp
  have "\<forall>f \<in> set (new1 @ new2). orderId (snd (snd f)) \<noteq> ?j"
    using f2(2) f4(2) by auto
  with fills have nofill: "\<exists>new. fillOrders ?s4 = fillOrders s @ new
           \<and> (\<forall>f \<in> set new. orderId (snd (snd f)) \<noteq> ?j)"
    by blast
  have unmarked: "\<forall>k. filter (\<lambda>y. orderId (order y) = ?j) (slots (dlob ?s4) k)
            = filter (\<lambda>y. orderId (order y) = ?j) (slots (dlob s) k)"
    using b4 step(3) b2 s1(1) by simp
  have later: "fillOrders (snd (dispatchNode env m opd n (tryFillForMarket env m s)))
           = fillOrders (tryFillForMarket env m s) @ [(userAccount n, userOrdersAccount n, order n)]"
    if "\<not> belowMinimumTradeSize env m opd ?U n"
  proof -
    from u4 obtain mv where mv: "userMap ?s4 (userAccount n) = Some mv" "user mv = ?U"
      by auto
    with body have "userMap (tryFillForMarket env m s) (userAccount n) = Some mv"
      by (simp add: final releaseMarket_keeps)
    with mv(2) that show ?thesis
      by (simp add: dispatchNode_def dispatchFill_def consoleLog_def Let_def)
  qed
  have same: "userMap (tryFillForMarket env m s) = userMap ?s4"
    "processing (tryFillForMarket env m s) = processing ?s4"
    "fillOrders (tryFillForMarket env m s) = fillOrders ?s4"
    "dlob (tryFillForMarket env m s) = dlob ?s4"
    using body by (simp_all add: final releaseMarket_keeps)
  from u4 monitored nofill unmarked later show ?thesis
    unfolding same by blast
qed

lemmas pass_eval = tryFillForMarket_def acquireMarket_def releaseMarket_def tryFillBody_def
      collectNodesToFill_def pushNodesToFill_def getOrderList_def dispatchNode_def dispatchFill_def
      belowMinimumTradeSize_def consoleLog_def setHaveFilled_def fetchUserAndAddToUserMap_def
      findNodesToFillFromOrderList_def findNodesToFill_def postOnlyWouldTake_def
      unknownOwnerBot_def example_defs Let_def

theorem tryFillForMarket_unknown_owner_witness:
  "perMarketMutex unknownOwnerBot 0 \<noteq> 1
   \<and> userMap unknownOwnerBot ''carol'' = None
   \<and> fetchUserAccount exampleEnv ''carol''
       = Some \<lparr>accountPublicKey = ''carol'', accountAuthority = ''carol'', accountCollateral = 0\<rparr>
   \<and> map_option user (userMap (tryFillForMarket exampleEnv 0 unknownOwnerBot) ''carol'')
       = Some (exampleUser ''carol'')
   \<and> processing (tryFillForMarket exampleEnv 0 unknownOwnerBot) = [exampleUser ''carol'']
   \<and> fillOrders (tryFillForMarket exampleEnv 0 unknownOwnerBot)
       = [(''alice'', ''alice-orders'', exampleOrder 1 Limit False 0)]
   \<and> slots (dlob (tryFillForMarket exampleEnv 0 unknownOwnerBot)) (0, Fixed, BidDesc)
       = [(exampleNode (exampleOrder 1 Limit False 0) ''alice'')\<lparr>haveFilled := True\<rparr>,
          exampleNode (exampleOrder 2 Limit False 0) ''carol'']
   \<and> fillOrders (snd (dispatchNode exampleEnv 0 0 (exampleNode (exampleOrder 2 Limit False 0) ''carol'')
         (tryFillForMarket exampleEnv 0 unknownOwnerBot)))
       = [(''alice'', ''alice-orders'', exampleOrder 1 Limit False 0),
          (''carol'', ''carol-orders'', exampleOrder 2 Limit False 0)]"
proof -
  let ?n1 = "exampleNode (exampleOrder 1 Limit False 0) ''alice''"
  let ?n2 = "exampleNode (exampleOrder 2 Limit False 0) ''carol''"
  let ?s0 = "unknownOwnerBot\<lparr>perMarketMutex := (perMarketMutex unknownOwnerBot)(0 := 1)\<rparr>"
  let ?s2 = "snd (dispatchLoop exampleEnv 0 0 [?n1] ?s0)"
  have free: "perMarketMutex unknownOwnerBot 0 \<noteq> 1"
    by (simp add: unknownOwnerBot_def exampleBot_def)
  have scan: "collectNodesToFill exampleEnv 0 ?s0 = (Inr (0, [?n1, ?n2]), ?s0)"
    by (simp add: pass_eval)
  have candidates: "filter (\<lambda>x. \<not> haveFilled x) [?n1, ?n2] = [?n1] @ ?n2 # []"
    by (simp add: exampleNode_def)
  have reached: "dispatchLoop exampleEnv 0 0 [?n1] ?s0 = (Inr (), ?s2)"
    by (simp add: pass_eval)
  have unknown: "userMap ?s2 (userAccount ?n2) = None"
    by (simp add: pass_eval)
  have fetched: "fetchUserAccount exampleEnv (userAccount ?n2)
       = Some \<lparr>accountPublicKey = ''carol'', accountAuthority = ''carol'', accountCollateral = 0\<rparr>"
    by (simp add: example_defs)
  have once: "\<forall>x \<in> set ([?n1] @ []). orderId (order x) \<noteq> orderId (order ?n2)"
    by (simp add: example_defs)
  note t = tryFillForMarket_unknown_owner[OF free scan candidates reached unknown fetched once]
  from t have registered:
    "map_option user (userMap (tryFillForMarket exampleEnv 0 unknownOwnerBot) (userAccount ?n2))
       = Some (getClearingHouseUser exampleEnv (accountAuthority
           \<lparr>accountPublicKey = ''carol'', accountAuthority = ''carol'', accountCollateral = 0\<rparr>))"
    by blast
  have computed: "userMap unknownOwnerBot ''carol'' = None
   \<and> fetchUserAccount exampleEnv ''carol''
       = Some \<lparr>accountPublicKey = ''carol'', accountAuthority = ''carol'', accountCollateral = 0\<rparr>
   \<and> processing (tryFillForMarket exampleEnv 0 unknownOwnerBot) = [exampleUser ''carol'']
   \<and> fillOrders (tryFillForMarket exampleEnv 0 unknownOwnerBot)
       = [(''alice'', ''alice-orders'', exampleOrder 1 Limit False 0)]
   \<and> slots (dlob (tryFillForMarket exampleEnv 0 unknownOwnerBot)) (0, Fixed, BidDesc)
       = [?n1\<lparr>haveFilled := True\<rparr>, ?n2]
   \<and> fillOrders (snd (dispatchNode exampleEnv 0 0 ?n2
         (tryFillForMarket exampleEnv 0 unknownOwnerBot)))
       = [(''alice'', ''alice-orders'', exampleOrder 1 Limit False 0),
          (''carol'', ''carol-orders'', exampleOrder 2 Limit False 0)]"
    by (simp add: pass_eval)
  have "map_option user (userMap (tryFillForMarket exampleEnv 0 unknownOwnerBot) ''carol'')
       = Some (exampleUser ''carol'')"
    using registered by (simp add: example_defs)
  with free computed show ?thesis by simp
qed

section \<open>The initial load of the users\<close>

lemma collectUsers_eq:
  "collectUsers env um accounts userArray =
     userArray @ map (\<lambda>b. getClearingHouseUser env (accountAuthority b))
       (filter (\<lambda>b. \<not> accountCollateral b < QUOTE_PRECISION env \<and> um (accountPublicKey b) = None)
          accounts)"
  by (induction accounts arbitrary: userArray) auto

lemma foldl_registerUser_processing:
  "processing (foldl registerUser s us) = processing s @ us"
  by (induction us arbitrary: s) (auto simp: registerUser_def)

lemma foldl_registerUser_userMap_other:
  "k \<notin> userAccountPublicKey ` set us \<Longrightarrow> userMap (foldl registerUser s us) k = userMap s k"
  by (induction us arbitrary: s) (auto simp: registerUser_def)

text \<open>
  Claim C9: in the initial load of the users, an account whose collateral is below
  \<^verbatim>\<open>QUOTE_PRECISION\<close> and that is not in the user map is skipped: no record is made for
  it and no margin-monitor cycle is started for it; it is registered later, when
  \<^verbatim>\<open>fetchUserAndAddToUserMap\<close> is called for it. The accounts enumerated have distinct
  addresses, and the handle built from an account's authority resolves to the address
  of that account.
\<close>

theorem fetchAllUsers_skips_small_accounts:
  assumes member: "a \<in> set accounts"
    and small: "accountCollateral a < QUOTE_PRECISION env"
    and absent: "userMap s (accountPublicKey a) = None"
    and derived: "\<forall>b \<in> set accounts.
        userAccountPublicKey (getClearingHouseUser env (accountAuthority b)) = accountPublicKey b"
    and unique: "distinct (map accountPublicKey accounts)"
  shows "userMap (snd (fetchAllUsers env accounts s)) (accountPublicKey a) = None
    \<and> (\<exists>us. processing (snd (fetchAllUsers env accounts s)) = processing s @ us
           \<and> accountPublicKey a \<notin> userAccountPublicKey ` set us)
    \<and> (fetchUserAccount env (accountPublicKey a) = Some a' \<longrightarrow>
         userMap (snd (fetchUserAndAddToUserMap env (accountPublicKey a) s')) (accountPublicKey a)
           = Some \<lparr>user = getClearingHouseUser env (accountAuthority a'), upToDate = True\<rparr>)"
proof -
  let ?us = "collectUsers env (userMap s) accounts []"
  have inj: "inj_on accountPublicKey (set accounts)"
    using unique by (simp add: distinct_map)
  have notin: "accountPublicKey a \<notin> userAccountPublicKey ` set ?us"
  proof
    assume "accountPublicKey a \<in> userAccountPublicKey ` set ?us"
    then obtain b where b: "b \<in> set accounts" "\<not> accountCollateral b < QUOTE_PRECISION env"
      and key: "accountPublicKey a = userAccountPublicKey (getClearingHouseUser env (accountAuthority b))"
      by (auto simp: collectUsers_eq)
    from key derived b(1) have "accountPublicKey a = accountPublicKey b" by simp
    with inj member b(1) have "a = b" by (auto dest: inj_onD)
    with small b(2) show False by simp
  qed
  show ?thesis
  proof (cases "bulkPollingUserSubscribe env ?us")
    case True
    then have eq: "snd (fetchAllUsers env accounts s) = foldl registerUser s ?us"
      by (simp add: fetchAllUsers_def Let_def)
    show ?thesis
      using notin absent
      by (auto simp: eq foldl_registerUser_processing foldl_registerUser_userMap_other
          fetchUserAndAddToUserMap_def Let_def)
  next
    case False
    then have eq: "snd (fetchAllUsers env accounts s) = s"
      by (simp add: fetchAllUsers_def Let_def)
    show ?thesis
      using absent by (auto simp: eq fetchUserAndAddToUserMap_def Let_def)
  qed
qed

theorem fetchAllUsers_skips_small_accounts_witness:
  "\<lparr>accountPublicKey = ''carol'', accountAuthority = ''carol'', accountCollateral = 999999\<rparr>
      \<in> set exampleAccounts
   \<and> (999999::int) < QUOTE_PRECISION exampleEnv
   \<and> userMap (exampleBot emptyDLOB Map.empty) ''carol'' = None
   \<and> map (\<lambda>b. userAccountPublicKey (getClearingHouseUser exampleEnv (accountAuthority b)))
        exampleAccounts = map accountPublicKey exampleAccounts
   \<and> distinct (map accountPublicKey exampleAccounts)
   \<and> userMap (snd (fetchAllUsers exampleEnv exampleAccounts (exampleBot emptyDLOB Map.empty)))
        ''carol'' = None
   \<and> processing (snd (fetchAllUsers exampleEnv exampleAccounts (exampleBot emptyDLOB Map.empty)))
        = [exampleUser ''bob'']
   \<and> userMap (snd (fetchUserAndAddToUserMap exampleEnv ''carol''
         (snd (fetchAllUsers exampleEnv exampleAccounts (exampleBot emptyDLOB Map.empty)))))
        ''carol'' = Some \<lparr>user = exampleUser ''carol'', upToDate = True\<rparr>"
proof -
  have gone: "userMap (snd (fetchAllUsers exampleEnv exampleAccounts (exampleBot emptyDLOB Map.empty)))
        (accountPublicKey \<lparr>accountPublicKey = ''carol'', accountAuthority = ''carol'',
            accountCollateral = 999999\<rparr>) = None"
    using fetchAllUsers_skips_small_accounts
      [of "\<lparr>accountPublicKey = ''carol'', accountAuthority = ''carol'', accountCollateral = 999999\<rparr>"
          exampleAccounts exampleEnv "exampleBot emptyDLOB Map.empty"]
    by (simp add: exampleAccounts_def example_defs)
  show ?thesis
    using gone
    by (simp add: fetchAllUsers_def registerUser_def fetchUserAndAddToUserMap_def Let_def
        exampleAccounts_def example_defs)
qed

section \<open>The event-drain loop\<close>

lemma withCallback_frame:
  "nextOrderHistoryIndex (withCallback l r s) = nextOrderHistoryIndex s"
  "updateOrderListMutex (withCallback l r s) = updateOrderListMutex s"
  "perMarketMutex (withCallback l r s) = perMarketMutex s"
  by (simp_all add: withCallback_def consoleLog_def)

lemma handleOrderRecord_frame:
  "nextOrderHistoryIndex (snd (handleOrderRecord env r s)) = nextOrderHistoryIndex s"
  "updateOrderListMutex (snd (handleOrderRecord env r s)) = updateOrderListMutex s"
  "perMarketMutex (snd (handleOrderRecord env r s)) = perMarketMutex s"
  by (simp_all add: handleOrderRecord_def Let_def withCallback_frame
      split: OrderAction.splits option.splits)

lemma drainLoop_history:
  "drainLoop fuel env len k h applied s = Some (r, s', applied') \<Longrightarrow>
     \<exists>n. applied' = applied @ map (\<lambda>i. (advance len ^^ i) (nextOrderHistoryIndex s)) [0..<n]
       \<and> nextOrderHistoryIndex s' = (advance len ^^ n) (nextOrderHistoryIndex s)
       \<and> updateOrderListMutex s' = updateOrderListMutex s
       \<and> (r = Inr () \<longrightarrow>
            nextOrderHistoryIndex s' = (if n = 0 then h else head (orderHistoryAccount env (k + n))))
       \<and> (\<forall>e. r = Inl e \<longrightarrow>
            (length (orderRecords (orderHistoryAccount env (k + n))) \<le> nextOrderHistoryIndex s'
               \<and> e = RecordUndefined (nextOrderHistoryIndex s'))
            \<or> (\<exists>s0. handleOrderRecord env
                   (orderRecords (orderHistoryAccount env (k + n)) ! nextOrderHistoryIndex s') s0
                     = (Inl e, s')))"
proof (induction fuel arbitrary: k h applied s)
  case 0
  then show ?case by simp
next
  case (Suc fuel)
  let ?c = "nextOrderHistoryIndex s"
  let ?rs = "orderRecords (orderHistoryAccount env k)"
  show ?case
  proof (cases "?c = h")
    case True
    with Suc.prems show ?thesis by (intro exI[of _ 0]) auto
  next
    case ne: False
    show ?thesis
    proof (cases "length ?rs \<le> ?c")
      case True
      with ne Suc.prems show ?thesis by (intro exI[of _ 0]) auto
    next
      case inrange: False
      obtain r1 s1 where h1: "handleOrderRecord env (?rs ! ?c) s = (r1, s1)"
        by (cases "handleOrderRecord env (?rs ! ?c) s")
      have f1: "nextOrderHistoryIndex s1 = ?c" "updateOrderListMutex s1 = updateOrderListMutex s"
        using handleOrderRecord_frame(1,2)[of env "?rs ! ?c" s] h1 by simp_all
      show ?thesis
      proof (cases r1)
        case (Inl e)
        with ne inrange h1 Suc.prems have "r = Inl e" "s' = s1" "applied' = applied"
          by auto
        with f1 inrange h1 Inl show ?thesis
          by (intro exI[of _ 0]) auto
      next
        case (Inr u)
        let ?s2 = "s1\<lparr>nextOrderHistoryIndex := (nextOrderHistoryIndex s1 + 1) mod len\<rparr>"
        from ne inrange h1 Inr Suc.prems
        have rec: "drainLoop fuel env len (Suc k) (head (orderHistoryAccount env (Suc k)))
                     (applied @ [?c]) ?s2 = Some (r, s', applied')"
          by simp
        from Suc.IH[OF rec] obtain n where
          n1: "applied' = (applied @ [?c]) @ map (\<lambda>i. (advance len ^^ i) (nextOrderHistoryIndex ?s2)) [0..<n]"
          and n2: "nextOrderHistoryIndex s' = (advance len ^^ n) (nextOrderHistoryIndex ?s2)"
          and n3: "updateOrderListMutex s' = updateOrderListMutex ?s2"
          and n4: "r = Inr () \<longrightarrow> nextOrderHistoryIndex s' =
                 (if n = 0 then head (orderHistoryAccount env (Suc k))
                  else head (orderHistoryAccount env (Suc k + n)))"
          and n5: "\<forall>e. r = Inl e \<longrightarrow>
            (length (orderRecords (orderHistoryAccount env (Suc k + n))) \<le> nextOrderHistoryIndex s'
               \<and> e = RecordUndefined (nextOrderHistoryIndex s'))
            \<or> (\<exists>s0. handleOrderRecord env
                   (orderRecords (orderHistoryAccount env (Suc k + n)) ! nextOrderHistoryIndex s') s0
                     = (Inl e, s'))"
          by blast
        have c2: "nextOrderHistoryIndex ?s2 = advance len ?c"
          by (simp add: f1 advance_def)
        have shift: "map (\<lambda>i. (advance len ^^ i) ?c) [0..<Suc n]
            = ?c # map (\<lambda>i. (advance len ^^ i) (advance len ?c)) [0..<n]"
          by (simp add: upt_conv_Cons map_Suc_upt[symmetric] funpow_swap1 del: upt_Suc)
        show ?thesis
        proof (intro exI[of _ "Suc n"] conjI)
          show "applied' = applied @ map (\<lambda>i. (advance len ^^ i) ?c) [0..<Suc n]"
            using n1 c2 by (simp only: shift) simp
          show "nextOrderHistoryIndex s' = (advance len ^^ Suc n) ?c"
            using n2 c2 by (simp add: funpow_swap1)
          show "updateOrderListMutex s' = updateOrderListMutex s"
            using n3 f1 by simp
          show "r = Inr () \<longrightarrow> nextOrderHistoryIndex s' =
                 (if Suc n = 0 then h else head (orderHistoryAccount env (k + Suc n)))"
            using n4 by (cases n) auto
          show "\<forall>e. r = Inl e \<longrightarrow>
            (length (orderRecords (orderHistoryAccount env (k + Suc n))) \<le> nextOrderHistoryIndex s'
               \<and> e = RecordUndefined (nextOrderHistoryIndex s'))
            \<or> (\<exists>s0. handleOrderRecord env
                   (orderRecords (orderHistoryAccount env (k + Suc n)) ! nextOrderHistoryIndex s') s0
                     = (Inl e, s'))"
            using n5 by simp
        qed
      qed
    qed
  qed
qed


lemma updateOrderList_run:
  assumes idle: "updateOrderListMutex s \<noteq> 1"
    and run: "updateOrderList fuel env s = Some (s', applied)"
  shows "updateOrderListMutex s' = 0"
    and "applied = map (\<lambda>i. (advance (length (orderRecords (orderHistoryAccount env 0))) ^^ i)
                          (nextOrderHistoryIndex s)) [0..<length applied]"
    and "nextOrderHistoryIndex s' =
           (advance (length (orderRecords (orderHistoryAccount env 0))) ^^ length applied)
             (nextOrderHistoryIndex s)"
    and "nextOrderHistoryIndex s' = head (orderHistoryAccount env (length applied))
       \<or> (\<exists>e. console s' \<noteq> [] \<and> last (console s') = UnexpectedErrorInUpdateOrderList e
            \<and> ((length (orderRecords (orderHistoryAccount env (length applied)))
                    \<le> nextOrderHistoryIndex s' \<and> e = RecordUndefined (nextOrderHistoryIndex s'))
               \<or> (\<exists>s0. fst (handleOrderRecord env
                     (orderRecords (orderHistoryAccount env (length applied))
                        ! nextOrderHistoryIndex s') s0) = Inl e)))"
proof -
  let ?len = "length (orderRecords (orderHistoryAccount env 0))"
  let ?s1 = "s\<lparr>updateOrderListMutex := 1\<rparr>"
  from idle run obtain r s2 where
    loop: "drainLoop fuel env ?len 0 (head (orderHistoryAccount env 0)) [] ?s1 = Some (r, s2, applied)"
    and fin: "s' = (case r of Inl e \<Rightarrow> consoleLog (UnexpectedErrorInUpdateOrderList e) s2 | Inr _ \<Rightarrow> s2)
                \<lparr>updateOrderListMutex := 0\<rparr>"
    by (auto simp: updateOrderList_def Let_def split: option.splits sum.splits)
  from drainLoop_history[OF loop] obtain n where
    n1: "applied = map (\<lambda>i. (advance ?len ^^ i) (nextOrderHistoryIndex s)) [0..<n]"
    and n2: "nextOrderHistoryIndex s2 = (advance ?len ^^ n) (nextOrderHistoryIndex s)"
    and n4: "r = Inr () \<longrightarrow> nextOrderHistoryIndex s2 =
               (if n = 0 then head (orderHistoryAccount env 0) else head (orderHistoryAccount env (0 + n)))"
    and n5: "\<forall>e. r = Inl e \<longrightarrow>
            (length (orderRecords (orderHistoryAccount env (0 + n))) \<le> nextOrderHistoryIndex s2
               \<and> e = RecordUndefined (nextOrderHistoryIndex s2))
            \<or> (\<exists>s0. handleOrderRecord env
                   (orderRecords (orderHistoryAccount env (0 + n)) ! nextOrderHistoryIndex s2) s0
                     = (Inl e, s2))"
    by auto
  have len: "length applied = n" using n1 by simp
  have cur: "nextOrderHistoryIndex s' = nextOrderHistoryIndex s2"
    using fin by (auto simp: consoleLog_def split: sum.splits)
  show "updateOrderListMutex s' = 0" using fin by simp
  show "applied = map (\<lambda>i. (advance ?len ^^ i) (nextOrderHistoryIndex s)) [0..<length applied]"
    using n1 len by simp
  show "nextOrderHistoryIndex s' = (advance ?len ^^ length applied) (nextOrderHistoryIndex s)"
    using n2 len cur by simp
  show "nextOrderHistoryIndex s' = head (orderHistoryAccount env (length applied))
       \<or> (\<exists>e. console s' \<noteq> [] \<and> last (console s') = UnexpectedErrorInUpdateOrderList e
            \<and> ((length (orderRecords (orderHistoryAccount env (length applied)))
                    \<le> nextOrderHistoryIndex s' \<and> e = RecordUndefined (nextOrderHistoryIndex s'))
               \<or> (\<exists>s0. fst (handleOrderRecord env
                     (orderRecords (orderHistoryAccount env (length applied))
                        ! nextOrderHistoryIndex s') s0) = Inl e)))"
  proof (cases r)
    case (Inr u)
    with n4 have "nextOrderHistoryIndex s2 = head (orderHistoryAccount env n)"
      by (cases n) auto
    with cur len show ?thesis by simp
  next
    case (Inl e)
    have log: "console s' \<noteq> [] \<and> last (console s') = UnexpectedErrorInUpdateOrderList e"
      using fin Inl by (simp add: consoleLog_def)
    from n5 Inl have
      "(length (orderRecords (orderHistoryAccount env n)) \<le> nextOrderHistoryIndex s2
               \<and> e = RecordUndefined (nextOrderHistoryIndex s2))
            \<or> (\<exists>s0. fst (handleOrderRecord env
                   (orderRecords (orderHistoryAccount env n) ! nextOrderHistoryIndex s2) s0) = Inl e)"
      by (metis add_0 fst_conv)
    with log cur len show ?thesis by auto
  qed
qed

lemma history_append:
  assumes xs: "xs = map (\<lambda>i. (advance len ^^ i) c) [0..<length xs]"
    and ys: "ys = map (\<lambda>i. (advance len ^^ i) ((advance len ^^ length xs) c)) [0..<length ys]"
  shows "xs @ ys = map (\<lambda>i. (advance len ^^ i) c) [0..<length xs + length ys]"
proof -
  have split: "[0..<length xs + length ys] = [0..<length xs] @ [length xs..<length xs + length ys]"
    by (rule upt_add_eq_append) simp
  have shift: "[length xs..<length xs + length ys] = map (\<lambda>i. i + length xs) [0..<length ys]"
    by (simp add: map_add_upt add.commute)
  have tail: "map (\<lambda>i. (advance len ^^ i) c) [length xs..<length xs + length ys]
      = map (\<lambda>i. (advance len ^^ i) ((advance len ^^ length xs) c)) [0..<length ys]"
    by (simp only: shift map_map comp_def funpow_add)
  have whole: "map (\<lambda>i. (advance len ^^ i) c) [0..<length xs + length ys]
      = map (\<lambda>i. (advance len ^^ i) c) [0..<length xs]
        @ map (\<lambda>i. (advance len ^^ i) ((advance len ^^ length xs) c)) [0..<length ys]"
    by (simp only: split map_append tail)
  have "xs @ ys = map (\<lambda>i. (advance len ^^ i) c) [0..<length xs]
        @ map (\<lambda>i. (advance len ^^ i) ((advance len ^^ length xs) c)) [0..<length ys]"
    using xs ys by (rule arg_cong2[where f="(@)"])
  with whole show ?thesis by (rule_tac trans) (assumption, rule sym, assumption)
qed

text \<open>
  Claim C4: a run of the event-drain loop that starts idle clears the busy flag on exit,
  whether it completes or an event throws; the error is logged and not returned; the
  cursor stands behind the last event that was applied, that is at the event that failed
  or at the head; the events applied are consecutive slots of the log from the old
  cursor on, and those of the next run continue where this run stopped, so that no event
  applied without an error is applied again. The log has a fixed positive number of
  slots.
\<close>

theorem updateOrderList_exit:
  assumes idle: "updateOrderListMutex s \<noteq> 1"
    and capacity: "0 < length (orderRecords (orderHistoryAccount env 0))"
    and run: "updateOrderList fuel env s = Some (s', applied)"
  shows "updateOrderListMutex s' = 0
    \<and> applied = map (\<lambda>i. (advance (length (orderRecords (orderHistoryAccount env 0))) ^^ i)
                          (nextOrderHistoryIndex s)) [0..<length applied]
    \<and> nextOrderHistoryIndex s' =
           (advance (length (orderRecords (orderHistoryAccount env 0))) ^^ length applied)
             (nextOrderHistoryIndex s)
    \<and> (nextOrderHistoryIndex s' = head (orderHistoryAccount env (length applied))
       \<or> (\<exists>e. console s' \<noteq> [] \<and> last (console s') = UnexpectedErrorInUpdateOrderList e
            \<and> ((length (orderRecords (orderHistoryAccount env (length applied)))
                    \<le> nextOrderHistoryIndex s' \<and> e = RecordUndefined (nextOrderHistoryIndex s'))
               \<or> (\<exists>s0. fst (handleOrderRecord env
                     (orderRecords (orderHistoryAccount env (length applied))
                        ! nextOrderHistoryIndex s') s0) = Inl e))))
    \<and> (\<forall>fuel2 env2 t t' applied2.
          nextOrderHistoryIndex t = nextOrderHistoryIndex s'
          \<and> updateOrderListMutex t = updateOrderListMutex s'
          \<and> length (orderRecords (orderHistoryAccount env2 0))
              = length (orderRecords (orderHistoryAccount env 0))
          \<and> updateOrderList fuel2 env2 t = Some (t', applied2)
          \<longrightarrow> updateOrderListMutex t' = 0
            \<and> applied @ applied2 =
                map (\<lambda>i. (advance (length (orderRecords (orderHistoryAccount env 0))) ^^ i)
                       (nextOrderHistoryIndex s)) [0..<length applied + length applied2])"
proof -
  note first = updateOrderList_run[OF idle run]
  have second: "updateOrderListMutex t' = 0
            \<and> applied @ applied2 =
                map (\<lambda>i. (advance (length (orderRecords (orderHistoryAccount env 0))) ^^ i)
                       (nextOrderHistoryIndex s)) [0..<length applied + length applied2]"
    if t: "nextOrderHistoryIndex t = nextOrderHistoryIndex s'"
      "updateOrderListMutex t = updateOrderListMutex s'"
      "length (orderRecords (orderHistoryAccount env2 0))
              = length (orderRecords (orderHistoryAccount env 0))"
      "updateOrderList fuel2 env2 t = Some (t', applied2)"
    for fuel2 env2 t t' applied2
  proof -
    have idle2: "updateOrderListMutex t \<noteq> 1" using t(2) first(1) by simp
    note snd = updateOrderList_run[OF idle2 t(4)]
    have "applied2 = map (\<lambda>i. (advance (length (orderRecords (orderHistoryAccount env 0))) ^^ i)
             ((advance (length (orderRecords (orderHistoryAccount env 0))) ^^ length applied)
                 (nextOrderHistoryIndex s))) [0..<length applied2]"
      using snd(2) unfolding t(3) t(1) first(3) .
    from history_append[OF first(2) this] snd(1) show ?thesis by blast
  qed
  from first second show ?thesis by blast
qed

lemmas drain_eval = updateOrderList_def handleOrderRecord_def withCallback_def consoleLog_def
     dlobInsert_def slotOf_def printTopOfOrderLists_def failingEnv_def example_defs

theorem updateOrderList_exit_witness:
  "updateOrderListMutex (exampleBot emptyDLOB Map.empty) \<noteq> 1
   \<and> 0 < length (orderRecords (orderHistoryAccount exampleEnv 0))
   \<and> snd (the firstDrain) = [0, 1]
   \<and> nextOrderHistoryIndex (fst (the firstDrain)) = 2
   \<and> updateOrderListMutex (fst (the firstDrain)) = 0
   \<and> snd (the secondDrain) = []
   \<and> nextOrderHistoryIndex (fst (the secondDrain)) = 2
   \<and> updateOrderListMutex (fst (the secondDrain)) = 0
   \<and> last (console (fst (the secondDrain))) = UnexpectedErrorInUpdateOrderList (NoOracleSubscriber 1)"
proof -
  have idle: "updateOrderListMutex (exampleBot emptyDLOB Map.empty) \<noteq> 1"
    by (simp add: exampleBot_def)
  have capacity: "0 < length (orderRecords (orderHistoryAccount exampleEnv 0))"
    by (simp add: exampleEnv_def)
  have first: "updateOrderList (Suc (Suc (Suc 0))) exampleEnv (exampleBot emptyDLOB Map.empty)
      = Some (fst (the firstDrain), snd (the firstDrain))"
    unfolding firstDrain_def by (simp add: drain_eval)
  have second: "updateOrderList (Suc (Suc (Suc 0))) failingEnv (fst (the firstDrain))
      = Some (fst (the secondDrain), snd (the secondDrain))"
    unfolding secondDrain_def firstDrain_def by (simp add: drain_eval)
  have samelen: "length (orderRecords (orderHistoryAccount failingEnv 0))
      = length (orderRecords (orderHistoryAccount exampleEnv 0))"
    by (simp add: failingEnv_def exampleEnv_def)
  note t = updateOrderList_exit[OF idle capacity first]
  from t have released: "updateOrderListMutex (fst (the firstDrain)) = 0" by blast
  from t second samelen have again: "updateOrderListMutex (fst (the secondDrain)) = 0"
    by blast
  have computed: "snd (the firstDrain) = [0, 1] \<and> nextOrderHistoryIndex (fst (the firstDrain)) = 2
     \<and> snd (the secondDrain) = [] \<and> nextOrderHistoryIndex (fst (the secondDrain)) = 2
     \<and> last (console (fst (the secondDrain))) = UnexpectedErrorInUpdateOrderList (NoOracleSubscriber 1)"
    unfolding secondDrain_def firstDrain_def by (simp add: drain_eval)
  from idle capacity released again computed show ?thesis by blast
qed

text \<open>
  The loop returns when the head stands still: with the head and the cursor inside the
  log, as many iterations as the log has slots are enough.
\<close>

lemma drainLoop_returns:
  assumes stable: "\<forall>j. head (orderHistoryAccount env j) = h" and inside: "h < len"
  shows "nextOrderHistoryIndex s < len \<Longrightarrow> (h + len - nextOrderHistoryIndex s) mod len < fuel
     \<Longrightarrow> \<exists>res. drainLoop fuel env len k h applied s = Some res"
proof (induction fuel arbitrary: s k applied)
  case 0
  then show ?case by simp
next
  case (Suc fuel)
  let ?c = "nextOrderHistoryIndex s"
  let ?rs = "orderRecords (orderHistoryAccount env k)"
  show ?case
  proof (cases "?c = h \<or> length ?rs \<le> ?c")
    case True
    then show ?thesis by auto
  next
    case False
    obtain r1 s1 where h1: "handleOrderRecord env (?rs ! ?c) s = (r1, s1)"
      by (cases "handleOrderRecord env (?rs ! ?c) s")
    have f1: "nextOrderHistoryIndex s1 = ?c"
      using handleOrderRecord_frame(1)[of env "?rs ! ?c" s] h1 by simp
    show ?thesis
    proof (cases r1)
      case (Inl e)
      with False h1 show ?thesis by simp
    next
      case (Inr u)
      let ?s2 = "s1\<lparr>nextOrderHistoryIndex := (nextOrderHistoryIndex s1 + 1) mod len\<rparr>"
      have lt: "nextOrderHistoryIndex ?s2 < len"
        using inside by simp
      have dist: "(h + len - nextOrderHistoryIndex ?s2) mod len < fuel"
      proof -
        have ne: "?c \<noteq> h" using False by simp
        have "(h + len - (?c + 1) mod len) mod len + 1 = (h + len - ?c) mod len"
        proof (cases "?c < h")
          case True
          with inside have a: "(?c + 1) mod len = ?c + 1" by simp
          have "(h + len - (?c + 1)) mod len = h - (?c + 1)"
            using True inside by (simp add: mod_if)
          moreover have "(h + len - ?c) mod len = h - ?c"
            using True inside by (simp add: mod_if)
          ultimately show ?thesis using True a by simp
        next
          case False
          with ne have gt: "h < ?c" by simp
          show ?thesis
          proof (cases "?c + 1 = len")
            case True
            then have a: "(?c + 1) mod len = 0" by simp
            have "h + len - ?c = h + 1" using True by arith
            moreover have "h + 1 < len" using True gt by arith
            ultimately have "(h + len - ?c) mod len = h + 1" by simp
            with a inside show ?thesis by simp
          next
            case False
            with Suc.prems(1) have a: "(?c + 1) mod len = ?c + 1" by simp
            have "(h + len - (?c + 1)) mod len = h + len - (?c + 1)"
              using gt Suc.prems(1) by simp
            moreover have "(h + len - ?c) mod len = h + len - ?c"
              using gt Suc.prems(1) by simp
            ultimately show ?thesis using a gt Suc.prems(1) by simp
          qed
        qed
        with Suc.prems(2) f1 show ?thesis by simp
      qed
      from Suc.IH[OF lt dist, of "Suc k" "applied @ [?c]"] stable
      obtain res where "drainLoop fuel env len (Suc k) (head (orderHistoryAccount env (Suc k)))
                     (applied @ [?c]) ?s2 = Some res"
        by auto
      with False h1 Inr show ?thesis by (cases res) auto
    qed
  qed
qed

lemma updateOrderList_returns:
  assumes stable: "\<forall>j. head (orderHistoryAccount env j) = h"
    and inside: "h < length (orderRecords (orderHistoryAccount env 0))"
    and cursor: "nextOrderHistoryIndex s < length (orderRecords (orderHistoryAccount env 0))"
    and fuel: "length (orderRecords (orderHistoryAccount env 0)) \<le> fuel"
  shows "\<exists>res. updateOrderList fuel env s = Some res"
proof (cases "updateOrderListMutex s = 1")
  case True
  then show ?thesis by (simp add: updateOrderList_def)
next
  case False
  let ?len = "length (orderRecords (orderHistoryAccount env 0))"
  let ?s1 = "s\<lparr>updateOrderListMutex := 1\<rparr>"
  have "(h + ?len - nextOrderHistoryIndex ?s1) mod ?len < fuel"
  proof -
    have "0 < ?len" using inside by linarith
    then have "(h + ?len - nextOrderHistoryIndex ?s1) mod ?len < ?len" by (rule mod_less_divisor)
    with fuel show ?thesis by simp
  qed
  with drainLoop_returns[OF stable inside, of ?s1 fuel 0 "[]"] cursor
  obtain res where "drainLoop fuel env ?len 0 h [] ?s1 = Some res" by auto
  with False stable show ?thesis
    by (cases res) (auto simp: updateOrderList_def Let_def split: sum.splits)
qed

section \<open>Mutual exclusion of the scheduling passes\<close>

lemma fetchUserAndAddToUserMap_flags:
  "perMarketMutex (snd (fetchUserAndAddToUserMap env key s)) = perMarketMutex s"
  by (simp add: fetchUserAndAddToUserMap_def Let_def split: option.splits)

lemma findNodesToFillLoop_flags:
  "perMarketMutex (snd (findNodesToFillLoop env node p cur acc s)) = perMarketMutex s"
proof (induction cur arbitrary: acc s)
  case Nil
  then show ?case by simp
next
  case (Cons c cur)
  have fetched: "perMarketMutex (snd (fetchUserAndAddToUserMap env (userAccount node)
            (consoleLog (UserNotFoundAddingBeforeFilling (userAccount node)) s))) = perMarketMutex s"
    by (simp add: fetchUserAndAddToUserMap_flags consoleLog_def)
  show ?case
    using fetched
    by (cases "fetchUserAndAddToUserMap env (userAccount node)
            (consoleLog (UserNotFoundAddingBeforeFilling (userAccount node)) s)")
       (auto simp: Cons.IH split: option.splits sum.splits)
qed

lemma findNodesToFillFromOrderList_flags:
  "perMarketMutex (snd (findNodesToFillFromOrderList env l p s)) = perMarketMutex s"
  by (cases l)
     (simp_all add: findNodesToFillFromOrderList_def findNodesToFill_def findNodesToFillLoop_flags
        del: findNodesToFillLoop.simps)

lemma pushNodesToFill_flags:
  "perMarketMutex (snd (pushNodesToFill env l p r)) = perMarketMutex (snd r)"
proof (cases r)
  case (Pair a s)
  show ?thesis
  proof (cases a)
    case (Inl e)
    with Pair show ?thesis by (simp add: pushNodesToFill_def)
  next
    case (Inr ns)
    with Pair findNodesToFillFromOrderList_flags[of env l p s] show ?thesis
      by (cases "findNodesToFillFromOrderList env l p s")
         (auto simp: pushNodesToFill_def split: sum.splits)
  qed
qed

lemma collectNodesToFill_flags:
  "perMarketMutex (snd (collectNodesToFill env m s)) = perMarketMutex s"
proof -
  let ?r4 = "pushNodesToFill env (getOrderList (dlob s) m Fixed MarkAsc) (calculateMarkPrice env m)
                (pushNodesToFill env (getOrderList (dlob s) m Fixed MarkDesc) (calculateMarkPrice env m)
                  (pushNodesToFill env (getOrderList (dlob s) m Fixed AskAsc) (calculateBidPrice env m)
                    (pushNodesToFill env (getOrderList (dlob s) m Fixed BidDesc) (calculateAskPrice env m)
                      (Inr [], s))))"
  have r4: "perMarketMutex (snd ?r4) = perMarketMutex s"
    by (simp add: pushNodesToFill_flags)
  obtain a s4 where p: "?r4 = (a, s4)" by (cases ?r4)
  with r4 have s4: "perMarketMutex s4 = perMarketMutex s" by simp
  show ?thesis
  proof (cases a)
    case (Inl e)
    with p s4 show ?thesis by (simp add: collectNodesToFill_def Let_def)
  next
    case (Inr ns)
    show ?thesis
    proof (cases "getOraclePriceData env m")
      case None
      with p s4 Inr show ?thesis by (simp add: collectNodesToFill_def Let_def)
    next
      case (Some opd)
      let ?r8 = "pushNodesToFill env (getOrderList (dlob s) m Floating MarkAsc)
                   (calculateOracleSpread env (calculateMarkPrice env m) opd)
                  (pushNodesToFill env (getOrderList (dlob s) m Floating MarkDesc)
                     (calculateOracleSpread env (calculateMarkPrice env m) opd)
                    (pushNodesToFill env (getOrderList (dlob s) m Floating AskAsc)
                       (calculateOracleSpread env (calculateBidPrice env m) opd)
                      (pushNodesToFill env (getOrderList (dlob s) m Floating BidDesc)
                         (calculateOracleSpread env (calculateAskPrice env m) opd)
                        (Inr ns, s4))))"
      have r8: "perMarketMutex (snd ?r8) = perMarketMutex s"
        by (simp add: pushNodesToFill_flags s4)
      obtain b s8 where q: "?r8 = (b, s8)" by (cases ?r8)
      with r8 have s8: "perMarketMutex s8 = perMarketMutex s" by simp
      from p Inr Some q s4 s8 show ?thesis
        by (cases b) (simp_all add: collectNodesToFill_def Let_def consoleLog_def)
    qed
  qed
qed

lemma dispatchNode_flags:
  "perMarketMutex (snd (dispatchNode env m opd n s)) = perMarketMutex s"
proof (cases "userMap s (userAccount n)")
  case None
  have "perMarketMutex (snd (fetchUserAndAddToUserMap env (userAccount n)
            (consoleLog (UserNotFoundAdding (userAccount n)) s))) = perMarketMutex s"
    by (simp add: fetchUserAndAddToUserMap_flags consoleLog_def)
  with None show ?thesis
    by (cases "fetchUserAndAddToUserMap env (userAccount n)
            (consoleLog (UserNotFoundAdding (userAccount n)) s)")
       (auto simp: dispatchNode_def split: sum.splits)
next
  case (Some mv)
  then show ?thesis
    by (simp add: dispatchNode_def dispatchFill_def consoleLog_def Let_def)
qed

lemma dispatchLoop_flags:
  "perMarketMutex (snd (dispatchLoop env m opd ns s)) = perMarketMutex s"
proof (induction ns arbitrary: s)
  case Nil
  then show ?case by simp
next
  case (Cons n ns)
  from dispatchNode_flags[of env m opd n s] show ?case
    by (cases "dispatchNode env m opd n s") (auto simp: Cons.IH split: sum.splits)
qed

lemma tryFillBody_flags:
  "perMarketMutex (snd (tryFillBody env m s)) = perMarketMutex s"
proof -
  from collectNodesToFill_flags[of env m s] show ?thesis
    by (cases "collectNodesToFill env m s")
       (auto simp: tryFillBody_def dispatchLoop_flags split: sum.splits)
qed

lemma releaseMarket_flags:
  "perMarketMutex (releaseMarket m r) = (perMarketMutex (snd r))(m := 0)"
  by (cases r) (auto simp: releaseMarket_def consoleLog_def split: sum.splits)

lemma reachable_active:
  "reachable (s, active) \<Longrightarrow> active m = (if perMarketMutex s m = 1 then 1 else 0)"
proof (induction s active arbitrary: m rule: reachable.induct[split_format(complete)])
  case (start s)
  then show ?case by simp
next
  case (skipped s active m')
  then show ?case by simp
next
  case (entered s active m' s1)
  then show ?case
    by (auto simp: acquireMarket_def split: if_splits)
next
  case (finished s active m' r)
  then show ?case
    by (auto simp: releaseMarket_flags)
next
  case (other s active s')
  then show ?case by simp
qed

lemma reachable_tryFillForMarket:
  assumes "reachable (s, active)"
  shows "reachable (tryFillForMarket env m s, active)"
proof (cases "acquireMarket m s")
  case None
  with assms show ?thesis by (simp add: tryFillForMarket_def)
next
  case (Some s1)
  let ?a1 = "active(m := active m + 1)"
  from assms Some have r1: "reachable (s1, ?a1)" by (rule reachable.entered)
  have "reachable (snd (tryFillBody env m s1), ?a1)"
    using r1 by (rule reachable.other) (simp add: tryFillBody_flags)
  then have "reachable (releaseMarket m (fst (tryFillBody env m s1), snd (tryFillBody env m s1)),
                ?a1(m := ?a1 m - 1))"
    by (rule reachable.finished) simp
  moreover have "?a1(m := ?a1 m - 1) = active" by auto
  ultimately show ?thesis using Some by (simp add: tryFillForMarket_def)
qed

text \<open>
  Claim C6: the scheduling passes of a market never overlap. A pass requested while the
  market's flag is held returns at once and changes nothing; a pass that entered gives
  the flag back on its normal exit and on its error exit; in every state the bot can
  reach, at most one pass is inside for a market, and one is inside exactly when the
  market's flag is 1. A pass run without interruption is a path of the relation.
\<close>

theorem tryFillForMarket_exclusive:
  "(perMarketMutex s m = 1 \<longrightarrow> tryFillForMarket env m s = s)
   \<and> (perMarketMutex s m \<noteq> 1 \<longrightarrow> perMarketMutex (tryFillForMarket env m s) m = 0)
   \<and> perMarketMutex (releaseMarket m (Inl e, s)) m = 0
   \<and> perMarketMutex (releaseMarket m (Inr (), s)) m = 0
   \<and> (reachable (s, active) \<longrightarrow>
        active m \<le> 1 \<and> (active m = 1 \<longleftrightarrow> perMarketMutex s m = 1)
        \<and> reachable (tryFillForMarket env m s, active))"
  using reachable_active[of s active m] reachable_tryFillForMarket[of s active env m]
  by (auto simp: tryFillForMarket_def acquireMarket_def releaseMarket_flags)

theorem tryFillForMarket_exclusive_witness:
  "perMarketMutex busyBot 0 = 1
   \<and> tryFillForMarket exampleEnv 0 busyBot = busyBot
   \<and> perMarketMutex (exampleBot emptyDLOB Map.empty) 1 \<noteq> 1
   \<and> perMarketMutex (tryFillForMarket exampleEnv 1 (exampleBot emptyDLOB Map.empty)) 1 = 0
   \<and> console (tryFillForMarket exampleEnv 1 (exampleBot emptyDLOB Map.empty))
        = [UnexpectedErrorForMarket 1 (NoOracleSubscriber 1)]
   \<and> ((\<lambda>_. 0)(0 := 0 + 1)) (0::nat) \<le> (1::nat)"
proof -
  have held: "perMarketMutex busyBot 0 = 1"
    by (simp add: busyBot_def)
  have free: "perMarketMutex (exampleBot emptyDLOB Map.empty) 1 \<noteq> 1"
    by (simp add: exampleBot_def)
  have "reachable (exampleBot emptyDLOB Map.empty, (\<lambda>_. 0))"
    by (rule reachable.start) (simp add: exampleBot_def)
  moreover have "acquireMarket 0 (exampleBot emptyDLOB Map.empty) = Some busyBot"
    by (simp add: acquireMarket_def busyBot_def exampleBot_def)
  ultimately have inside: "reachable (busyBot, (\<lambda>_. 0)(0 := (\<lambda>_. 0) (0::nat) + 1))"
    by (rule reachable.entered)
  have noop: "tryFillForMarket exampleEnv 0 busyBot = busyBot"
    and single: "((\<lambda>_. 0)(0 := (\<lambda>_. 0) (0::nat) + 1)) (0::nat) \<le> (1::nat)"
    using tryFillForMarket_exclusive
      [of busyBot 0 exampleEnv SubscribeFailed "(\<lambda>_. 0)(0 := (\<lambda>_. 0) (0::nat) + 1)"] held inside
    by blast+
  have released: "perMarketMutex (tryFillForMarket exampleEnv 1 (exampleBot emptyDLOB Map.empty)) 1 = 0"
    using tryFillForMarket_exclusive
      [of "exampleBot emptyDLOB Map.empty" 1 exampleEnv SubscribeFailed "\<lambda>_. 0"] free
    by blast
  have logged: "console (tryFillForMarket exampleEnv 1 (exampleBot emptyDLOB Map.empty))
        = [UnexpectedErrorForMarket 1 (NoOracleSubscriber 1)]"
    by (simp add: tryFillForMarket_def acquireMarket_def releaseMarket_def tryFillBody_def
      collectNodesToFill_def pushNodesToFill_def getOrderList_def consoleLog_def
      findNodesToFillFromOrderList_def example_defs)
  from held free noop single released logged show ?thesis by simp
qed

end
